theory Spec2Isabelle
  imports Main
begin

section \<open>JavaScript values\<close>

text \<open>
  The runtime passes around arbitrary JavaScript values (\<^verbatim>\<open>any\<close>).  Only three things
  about a value matter to the functions below: its truthiness (\<^verbatim>\<open>if (err)\<close>,
  \<^verbatim>\<open>if (d[turbopackError])\<close>), whether it is \<^verbatim>\<open>undefined\<close>, and whether it is an
  object carrying the async-module capabilities (\<^verbatim>\<open>isAsyncModuleExt\<close>), a plain
  thenable (\<^verbatim>\<open>isPromise\<close>) or anything else.  References are natural numbers.
  \<open>JAsyncPromise m\<close> is the promise built by \<^verbatim>\<open>asyncModule\<close> for the module scope
  \<open>m\<close>.
\<close>

datatype jsval =
    JUndefined
  | JNull
  | JBool bool
  | JNum int
  | JNaN
  | JStr string
  | JObj nat
  | JFun nat
  | JPromise nat
  | JAsyncPromise nat

fun truthy :: "jsval \<Rightarrow> bool" where
  "truthy JUndefined = False"
| "truthy JNull = False"
| "truthy (JBool b) = b"
| "truthy (JNum n) = (n \<noteq> 0)"
| "truthy JNaN = False"
| "truthy (JStr s) = (s \<noteq> [])"
| "truthy (JObj _) = True"
| "truthy (JFun _) = True"
| "truthy (JPromise _) = True"
| "truthy (JAsyncPromise _) = True"

text \<open>\<open>firstOccurrences\<close> keeps the first occurrence of each element of a list.\<close>

primrec firstOccurrences :: "'a list \<Rightarrow> 'a list" where
  "firstOccurrences [] = []"
| "firstOccurrences (x # xs) = x # filter (\<lambda>y. y \<noteq> x) (firstOccurrences xs)"

section \<open>The store of the async dependency coordinator\<close>

text \<open>
  \<^verbatim>\<open>type AsyncQueueFn = (() => void) & { queueCount: number }\<close> and
  \<^verbatim>\<open>type AsyncQueue = AsyncQueueFn[] & { resolved: boolean }\<close>.
  A queue is an array of references to continuations together with its flag.
  What \<^verbatim>\<open>wrapDeps\<close> returns for one dependency is an \<^verbatim>\<open>AsyncModuleExt\<close>: the
  dependency itself when it is async capable, a fresh wrapper object for a plain
  promise, or a wrapper of a plain value.
\<close>

record AsyncQueue =
  resolved :: bool
  fns :: "nat list"

datatype AsyncModuleExt =
    ExtModule nat
  | ExtWrapped nat
  | ExtPlain jsval

text \<open>
  The only continuations this file creates are the \<^verbatim>\<open>fn\<close> of
  \<^verbatim>\<open>handleAsyncDependencies\<close>: \<^verbatim>\<open>() => resolve(getResult)\<close> with
  \<^verbatim>\<open>queueCount\<close>, where \<^verbatim>\<open>getResult\<close> closes over \<^verbatim>\<open>currentDeps\<close>.
\<close>

record AsyncQueueFn =
  queueCount :: int
  currentDeps :: "AsyncModuleExt list"

text \<open>
  A promise made by \<^verbatim>\<open>createPromise\<close>, seen through its \<^verbatim>\<open>resolve\<close> and
  \<^verbatim>\<open>reject\<close> functions: only the first call of either has an effect.
\<close>

datatype promiseState = Pending | Resolved jsval | Rejected jsval

fun resolvePromise :: "jsval \<Rightarrow> promiseState \<Rightarrow> promiseState" where
  "resolvePromise v Pending = Resolved v"
| "resolvePromise v p = p"

fun rejectPromise :: "jsval \<Rightarrow> promiseState \<Rightarrow> promiseState" where
  "rejectPromise e Pending = Rejected e"
| "rejectPromise e p = p"

text \<open>
  The variables one call of \<^verbatim>\<open>asyncModule\<close> closes over: \<^verbatim>\<open>queue\<close> (absent without
  \<^verbatim>\<open>hasAwait\<close>), the set \<^verbatim>\<open>depQueues\<close> in insertion order, \<^verbatim>\<open>exports\<close>
  (which is also \<^verbatim>\<open>promise[turbopackExports]\<close>, the name of the field here), the
  promise and its optional \<^verbatim>\<open>turbopackError\<close> property.
\<close>

record asyncModuleScope =
  queue :: "nat option"
  depQueues :: "nat list"
  turbopackExports :: jsval
  promise :: promiseState
  turbopackError :: "jsval option"

text \<open>The object \<^verbatim>\<open>obj\<close> that \<^verbatim>\<open>wrapDeps\<close> builds around a plain promise, with its queue.\<close>

record wrappedDep =
  wrappedExports :: jsval
  wrappedError :: "jsval option"
  wrappedQueue :: nat

text \<open>
  The store.  \<open>fired\<close> is the trace of the calls \<^verbatim>\<open>fn()\<close>, in order: calling a
  continuation resolves the promise of its \<^verbatim>\<open>handleAsyncDependencies\<close> call and
  touches nothing else (promise reactions run later, from the host's job queue).
\<close>

record state =
  queues :: "nat \<Rightarrow> AsyncQueue"
  conts :: "nat \<Rightarrow> AsyncQueueFn"
  mods :: "nat \<Rightarrow> asyncModuleScope"
  wraps :: "nat \<Rightarrow> wrappedDep"
  nextQueue :: nat
  nextFn :: nat
  nextMod :: nat
  nextWrap :: nat
  nextObj :: nat
  fired :: "nat list"

section \<open>resolveQueue\<close>

text \<open>\<^verbatim>\<open>(fn) => fn.queueCount--\<close>\<close>

definition decrementCount :: "nat \<Rightarrow> state \<Rightarrow> state" where
  "decrementCount f s =
     s\<lparr>conts := (conts s)(f := (conts s f)\<lparr>queueCount := queueCount (conts s f) - 1\<rparr>)\<rparr>"

text \<open>\<^verbatim>\<open>fn()\<close>, that is \<^verbatim>\<open>resolve(getResult)\<close>\<close>

definition callFn :: "nat \<Rightarrow> state \<Rightarrow> state" where
  "callFn f s = s\<lparr>fired := fired s @ [f]\<rparr>"

text \<open>
  \<^verbatim>\<open>(fn) => (fn.queueCount-- ? fn.queueCount++ : fn())\<close>: the post-decrement yields the
  old count and stores the count minus one; a nonzero old count is restored, a zero one
  stays at \<open>-1\<close> and the continuation is called.
\<close>

definition fireIfZero :: "nat \<Rightarrow> state \<Rightarrow> state" where
  "fireIfZero f s =
     (let old = queueCount (conts s f);
          s1 = s\<lparr>conts := (conts s)(f := (conts s f)\<lparr>queueCount := old - 1\<rparr>)\<rparr>
      in if old \<noteq> 0
         then s1\<lparr>conts := (conts s1)(f := (conts s1 f)\<lparr>queueCount := queueCount (conts s1 f) + 1\<rparr>)\<rparr>
         else callFn f s1)"

definition markResolved :: "nat \<Rightarrow> state \<Rightarrow> state" where
  "markResolved q s = s\<lparr>queues := (queues s)(q := (queues s q)\<lparr>resolved := True\<rparr>)\<rparr>"

definition resolveQueue :: "nat option \<Rightarrow> state \<Rightarrow> state" where
  "resolveQueue qo s =
     (case qo of
        None \<Rightarrow> s
      | Some q \<Rightarrow>
          if resolved (queues s q) then s
          else
            let s1 = markResolved q s;
                s2 = fold decrementCount (fns (queues s1 q)) s1
            in fold fireIfZero (fns (queues s2 q)) s2)"

section \<open>wrapDeps\<close>

text \<open>
  One step of the \<^verbatim>\<open>deps.map\<close> of \<^verbatim>\<open>wrapDeps\<close>.  \<^verbatim>\<open>null\<close> and values whose
  \<^verbatim>\<open>typeof\<close> is not \<^verbatim>\<open>"object"\<close> fall through to the last case, as do objects that
  are neither async capable nor thenable.  For a plain promise the source allocates the
  queue (unresolved), the wrapper with \<^verbatim>\<open>[turbopackExports]: {}\<close> (a new object), and
  hands the two callbacks \<open>wrappedOnFulfilled\<close> and \<open>wrappedOnRejected\<close> to
  \<^verbatim>\<open>dep.then\<close>; the host runs one of them later, never during this call.
\<close>

definition wrapDep :: "jsval \<Rightarrow> state \<Rightarrow> AsyncModuleExt \<times> state" where
  "wrapDep dep s =
     (case dep of
        JAsyncPromise m \<Rightarrow> (ExtModule m, s)
      | JPromise p \<Rightarrow>
          (let q = nextQueue s; w = nextWrap s; ob = nextObj s
           in (ExtWrapped w,
               s\<lparr>queues := (queues s)(q := \<lparr>resolved = False, fns = []\<rparr>),
                 wraps := (wraps s)(w := \<lparr>wrappedExports = JObj ob, wrappedError = None,
                                          wrappedQueue = q\<rparr>),
                 nextQueue := Suc q, nextWrap := Suc w, nextObj := Suc ob\<rparr>))
      | _ \<Rightarrow> (ExtPlain dep, s))"

fun wrapDeps :: "jsval list \<Rightarrow> state \<Rightarrow> AsyncModuleExt list \<times> state" where
  "wrapDeps [] s = ([], s)"
| "wrapDeps (dep # deps) s =
     (let (d, s1) = wrapDep dep s;
          (ds, s2) = wrapDeps deps s1
      in (d # ds, s2))"

text \<open>\<^verbatim>\<open>(res) => { obj[turbopackExports] = res; resolveQueue(queue); }\<close>\<close>

definition wrappedOnFulfilled :: "nat \<Rightarrow> jsval \<Rightarrow> state \<Rightarrow> state" where
  "wrappedOnFulfilled w res s =
     resolveQueue (Some (wrappedQueue (wraps s w)))
       (s\<lparr>wraps := (wraps s)(w := (wraps s w)\<lparr>wrappedExports := res\<rparr>)\<rparr>)"

text \<open>\<^verbatim>\<open>(err) => { obj[turbopackError] = err; resolveQueue(queue); }\<close>\<close>

definition wrappedOnRejected :: "nat \<Rightarrow> jsval \<Rightarrow> state \<Rightarrow> state" where
  "wrappedOnRejected w err s =
     resolveQueue (Some (wrappedQueue (wraps s w)))
       (s\<lparr>wraps := (wraps s)(w := (wraps s w)\<lparr>wrappedError := Some err\<rparr>)\<rparr>)"

section \<open>asyncModule and its two callbacks\<close>

text \<open>
  \<^verbatim>\<open>dep[turbopackQueues](fn)\<close> for the three shapes of \<^verbatim>\<open>AsyncModuleExt\<close>:
  \<^item> an async module's promise: \<^verbatim>\<open>queue && fn(queue); depQueues.forEach(fn);
    promise["catch"](() => {})\<close> (the last marks the rejection as handled and changes
    nothing here).  \<^verbatim>\<open>forEach\<close> walks the set as it stands when it starts; the only
    callback this file passes adds to the set of the calling module and only queues that
    are not in it, so no walk sees its own set grow;
  \<^item> a wrapped promise: \<^verbatim>\<open>(fn) => fn(queue)\<close>;
  \<^item> a wrapped plain value: \<^verbatim>\<open>() => {}\<close>.
\<close>

definition turbopackQueues ::
  "AsyncModuleExt \<Rightarrow> (nat \<Rightarrow> state \<Rightarrow> state) \<Rightarrow> state \<Rightarrow> state" where
  "turbopackQueues d fn s =
     (case d of
        ExtModule m \<Rightarrow>
          (let s1 = (case queue (mods s m) of None \<Rightarrow> s | Some q \<Rightarrow> fn q s)
           in fold fn (depQueues (mods s1 m)) s1)
      | ExtWrapped w \<Rightarrow> fn (wrappedQueue (wraps s w)) s
      | ExtPlain v \<Rightarrow> s)"

text \<open>
  The queues that \<^verbatim>\<open>dep[turbopackQueues]\<close> hands to its argument, as the store
  stands: the dependency's own queue, when it has one, then its \<^verbatim>\<open>depQueues\<close>; the
  queue of a wrapped promise; nothing for a plain value.  (A description used to state
  results about the registration loop; the loop itself is \<open>turbopackQueues\<close>.)
\<close>

definition exposedQueues :: "state \<Rightarrow> AsyncModuleExt \<Rightarrow> nat list" where
  "exposedQueues s d =
     (case d of
        ExtModule m \<Rightarrow>
          (case queue (mods s m) of None \<Rightarrow> [] | Some q \<Rightarrow> [q]) @ depQueues (mods s m)
      | ExtWrapped w \<Rightarrow> [wrappedQueue (wraps s w)]
      | ExtPlain v \<Rightarrow> [])"

text \<open>
  \<^verbatim>\<open>fnQueue\<close> of the call that created continuation \<open>f\<close>, in the scope of
  module \<open>m\<close>.  A queue reference is always an object, so the \<^verbatim>\<open>q &&\<close> of the inner
  test is true.
\<close>

definition fnQueue :: "nat \<Rightarrow> nat \<Rightarrow> nat \<Rightarrow> state \<Rightarrow> state" where
  "fnQueue m f q s =
     (if Some q \<noteq> queue (mods s m) \<and> q \<notin> set (depQueues (mods s m)) then
        let s1 = s\<lparr>mods := (mods s)(m := (mods s m)\<lparr>depQueues := depQueues (mods s m) @ [q]\<rparr>)\<rparr>
        in if \<not> resolved (queues s1 q) then
             let s2 = s1\<lparr>conts := (conts s1)(f := (conts s1 f)
                         \<lparr>queueCount := queueCount (conts s1 f) + 1\<rparr>)\<rparr>
             in s2\<lparr>queues := (queues s2)(q := (queues s2 q)\<lparr>fns := fns (queues s2 q) @ [f]\<rparr>)\<rparr>
           else s1
      else s)"

text \<open>
  Three descriptions used to state what the registration loop of
  \<^verbatim>\<open>handleAsyncDependencies\<close> does.  \<open>registerOn m f new s\<close> is the store in which
  the queues \<open>new\<close> have joined the \<^verbatim>\<open>depQueues\<close> of module \<open>m\<close> and the
  continuation \<open>f\<close> has been pushed on, and counted for, those of them that are not
  resolved.  \<open>sameExposure m s t\<close> says that the dependencies expose the same queues
  in \<open>t\<close> as in \<open>s\<close>, up to queues that module \<open>m\<close> has met since.
  \<open>metQueues m deps s\<close> are the queues a call meets that are neither the queue of
  \<open>m\<close> nor in its \<^verbatim>\<open>depQueues\<close>, each once, in the order met.
\<close>

definition registerOn :: "nat \<Rightarrow> nat \<Rightarrow> nat list \<Rightarrow> state \<Rightarrow> state" where
  "registerOn m f new s =
     s\<lparr>mods := (mods s)(m := (mods s m)\<lparr>depQueues := depQueues (mods s m) @ new\<rparr>),
       conts := (conts s)(f := (conts s f)\<lparr>queueCount := queueCount (conts s f)
                   + int (length (filter (\<lambda>q. \<not> resolved (queues s q)) new))\<rparr>),
       queues := (\<lambda>q. if q \<in> set new \<and> \<not> resolved (queues s q)
                       then (queues s q)\<lparr>fns := fns (queues s q) @ [f]\<rparr> else queues s q)\<rparr>"

definition sameExposure :: "nat \<Rightarrow> state \<Rightarrow> state \<Rightarrow> bool" where
  "sameExposure m s t =
     (wraps t = wraps s \<and> (\<forall>m'. m' \<noteq> m \<longrightarrow> mods t m' = mods s m')
      \<and> queue (mods t m) = queue (mods s m)
      \<and> set (depQueues (mods s m)) \<subseteq> set (depQueues (mods t m)))"

definition metQueues :: "nat \<Rightarrow> jsval list \<Rightarrow> state \<Rightarrow> nat list" where
  "metQueues m deps s =
     filter (\<lambda>q. Some q \<noteq> queue (mods s m) \<and> q \<notin> set (depQueues (mods s m)))
       (firstOccurrences
          (concat (map (exposedQueues (snd (wrapDeps deps s))) (fst (wrapDeps deps s)))))"

text \<open>\<^verbatim>\<open>d[turbopackError]\<close> (\<^verbatim>\<open>undefined\<close> when the property is absent) and
  \<^verbatim>\<open>d[turbopackExports]\<close>.\<close>

definition extError :: "state \<Rightarrow> AsyncModuleExt \<Rightarrow> jsval" where
  "extError s d =
     (case d of
        ExtModule m \<Rightarrow> (case turbopackError (mods s m) of None \<Rightarrow> JUndefined | Some e \<Rightarrow> e)
      | ExtWrapped w \<Rightarrow> (case wrappedError (wraps s w) of None \<Rightarrow> JUndefined | Some e \<Rightarrow> e)
      | ExtPlain v \<Rightarrow> JUndefined)"

definition extExports :: "state \<Rightarrow> AsyncModuleExt \<Rightarrow> jsval" where
  "extExports s d =
     (case d of
        ExtModule m \<Rightarrow> turbopackExports (mods s m)
      | ExtWrapped w \<Rightarrow> wrappedExports (wraps s w)
      | ExtPlain v \<Rightarrow> v)"

text \<open>
  \<^verbatim>\<open>getResult\<close>: the \<^verbatim>\<open>map\<close> runs left to right and the first truthy captured error
  is thrown (\<open>Inl\<close>); it reads the store as it is when called.
\<close>

fun getResult :: "state \<Rightarrow> AsyncModuleExt list \<Rightarrow> jsval + jsval list" where
  "getResult s [] = Inr []"
| "getResult s (d # ds) =
     (if truthy (extError s d) then Inl (extError s d)
      else (case getResult s ds of
              Inl e \<Rightarrow> Inl e
            | Inr vs \<Rightarrow> Inr (extExports s d # vs)))"

text \<open>
  What \<^verbatim>\<open>handleAsyncDependencies\<close> returns: the results array, or the promise that the
  continuation \<open>f\<close> will resolve with \<^verbatim>\<open>getResult\<close>.  A throw is \<open>Inl\<close>.
\<close>

datatype awaited = Results "jsval list" | Deferred nat

definition handleAsyncDependencies ::
  "nat \<Rightarrow> jsval list \<Rightarrow> state \<Rightarrow> (jsval + awaited) \<times> state" where
  "handleAsyncDependencies m deps s =
     (let (cd, s1) = wrapDeps deps s;
          f = nextFn s1;
          s2 = s1\<lparr>conts := (conts s1)(f := \<lparr>queueCount = 0, currentDeps = cd\<rparr>),
                  nextFn := Suc f\<rparr>;
          s3 = fold (\<lambda>dep. turbopackQueues dep (fnQueue m f)) cd s2
      in if queueCount (conts s3 f) \<noteq> 0 then (Inr (Deferred f), s3)
         else (case getResult s3 cd of
                 Inl e \<Rightarrow> (Inl e, s3)
               | Inr vs \<Rightarrow> (Inr (Results vs), s3)))"

text \<open>\<^verbatim>\<open>asyncResult(err?)\<close>; calling it without an argument passes \<^verbatim>\<open>undefined\<close>.\<close>

definition asyncResult :: "nat \<Rightarrow> jsval \<Rightarrow> state \<Rightarrow> state" where
  "asyncResult m err s =
     (let s1 =
        (if truthy err then
           s\<lparr>mods := (mods s)(m := (mods s m)
                \<lparr>promise := rejectPromise err (promise (mods s m)),
                 turbopackError := Some err\<rparr>)\<rparr>
         else
           s\<lparr>mods := (mods s)(m := (mods s m)
                \<lparr>promise := resolvePromise (turbopackExports (mods s m)) (promise (mods s m))\<rparr>)\<rparr>)
      in resolveQueue (queue (mods s1 m)) s1)"

text \<open>
  The module record, as far as this file reads and writes it: \<^verbatim>\<open>exports\<close>,
  \<^verbatim>\<open>namespaceObject\<close> and the list under the symbol \<^verbatim>\<open>REEXPORTED_OBJECTS\<close>.
  A namespace object is a plain value, the \<^verbatim>\<open>Proxy\<close> that \<^verbatim>\<open>dynamicExport\<close>
  builds over an exports object, or a promise derived from \<^verbatim>\<open>module.exports\<close> by
  \<^verbatim>\<open>maybeWrapAsyncModulePromise\<close> that resolves to such a proxy.
\<close>

datatype namespace =
    NsValue jsval
  | NsProxy nat
  | NsDeferred jsval nat

record Module =
  moduleExports :: jsval
  namespaceObject :: "namespace option"
  reexportedObjects :: "nat list option"

text \<open>
  \<^verbatim>\<open>asyncModule\<close> up to and including \<^verbatim>\<open>module.exports = promise\<close> (lines 399 to
  417): the queue, created resolved when \<^verbatim>\<open>hasAwait\<close>, the empty \<^verbatim>\<open>depQueues\<close>, the
  promise and its capabilities.  Returns the new scope, its queue and the module record.
\<close>

definition asyncModuleSetup ::
  "Module \<Rightarrow> bool \<Rightarrow> state \<Rightarrow> nat \<times> nat option \<times> Module \<times> state" where
  "asyncModuleSetup module hasAwait s =
     (let (qo, s1) =
            (if hasAwait
             then (Some (nextQueue s),
                   s\<lparr>queues := (queues s)(nextQueue s := \<lparr>resolved = True, fns = []\<rparr>),
                     nextQueue := Suc (nextQueue s)\<rparr>)
             else (None, s));
          m = nextMod s1;
          s2 = s1\<lparr>mods := (mods s1)(m := \<lparr>queue = qo, depQueues = [],
                                             turbopackExports = moduleExports module,
                                             promise = Pending, turbopackError = None\<rparr>),
                  nextMod := Suc m\<rparr>
      in (m, qo, module\<lparr>moduleExports := JAsyncPromise m\<rparr>, s2))"

text \<open>
  \<^verbatim>\<open>asyncModule(module, body, hasAwait)\<close>.  The body receives the two callbacks of the
  new scope \<open>m\<close>, here the scope itself: it may call \<open>handleAsyncDependencies m\<close> and
  \<open>asyncResult m\<close> and do anything else to the store, or throw (\<open>Inl\<close>), in which case
  the last statement is not reached.  \<^verbatim>\<open>queue\<close> is a \<^verbatim>\<open>const\<close> of the call, so the
  final assignment goes to the queue created at the start.
\<close>

definition asyncModule ::
  "Module \<Rightarrow> (nat \<Rightarrow> state \<Rightarrow> jsval + state) \<Rightarrow> bool \<Rightarrow> state \<Rightarrow> jsval + (Module \<times> state)" where
  "asyncModule module body hasAwait s =
     (let (m, qo, module1, s1) = asyncModuleSetup module hasAwait s
      in case body m s1 of
           Inl e \<Rightarrow> Inl e
         | Inr s2 \<Rightarrow>
             (case qo of
                None \<Rightarrow> Inr (module1, s2)
              | Some q \<Rightarrow>
                  Inr (module1,
                       s2\<lparr>queues := (queues s2)(q := (queues s2 q)\<lparr>resolved := False\<rparr>)\<rparr>)))"

section \<open>Objects and the export namespace builder\<close>

text \<open>
  Property keys are strings or symbols; \<^verbatim>\<open>Symbol.toStringTag\<close> is the one symbol this
  file names.  A property is a data property or an accessor, with its \<^verbatim>\<open>enumerable\<close>
  attribute (the other attributes keep their defaults and are never read here).  An
  accessor's \<^verbatim>\<open>get\<close> is a reference to a function, or \<^verbatim>\<open>undefined\<close> (\<open>None\<close>).

  An ordinary, extensible object is the list of its own properties, in the order in which
  \<^verbatim>\<open>Reflect.ownKeys\<close> reports them, and \<open>inherited\<close>: what a lookup of a name it
  does not own finds on its prototype chain (\<^verbatim>\<open>undefined\<close> when nothing).
\<close>

datatype propkey = Name string | ToStringTag | Sym nat

datatype descriptor =
    DataDesc jsval bool
  | AccessorDesc "nat option" bool

record jsobject =
  props :: "(propkey \<times> descriptor) list"
  inherited :: "propkey \<Rightarrow> jsval"

definition ownKeys :: "jsobject \<Rightarrow> propkey list" where
  "ownKeys obj = map fst (props obj)"

text \<open>\<^verbatim>\<open>hasOwnProperty.call(obj, name)\<close>\<close>

definition hasOwnProperty :: "jsobject \<Rightarrow> propkey \<Rightarrow> bool" where
  "hasOwnProperty obj name = (name \<in> set (ownKeys obj))"

definition getOwnProperty :: "jsobject \<Rightarrow> propkey \<Rightarrow> descriptor option" where
  "getOwnProperty obj name = map_of (props obj) name"

text \<open>
  \<^verbatim>\<open>defineProp\<close>: \<^verbatim>\<open>Object.defineProperty\<close> only when the object does not own the
  name; on an extensible object that adds the property.
\<close>

definition defineProp :: "jsobject \<Rightarrow> propkey \<Rightarrow> descriptor \<Rightarrow> jsobject" where
  "defineProp obj name options =
     (if \<not> hasOwnProperty obj name then obj\<lparr>props := props obj @ [(name, options)]\<rparr> else obj)"

text \<open>
  \<^verbatim>\<open>esm(exports, getters)\<close>.  The constant \<^verbatim>\<open>toStringTag\<close> is
  \<^verbatim>\<open>Symbol.toStringTag\<close> where the host has symbols and \<^verbatim>\<open>false\<close> otherwise: the
  parameter \<open>toStringTag\<close> says which.  \<^verbatim>\<open>getters\<close> is given by its enumerable
  string keys in \<^verbatim>\<open>for ... in\<close> order with their values; the loop visits the keys and
  reads \<^verbatim>\<open>getters[key]\<close>.  \<^verbatim>\<open>{ value: v }\<close> defines a data property that is not
  enumerable.
\<close>

definition esm :: "bool \<Rightarrow> jsobject \<Rightarrow> (string \<times> nat) list \<Rightarrow> jsobject" where
  "esm toStringTag exports getters =
     (let e1 = defineProp exports (Name ''__esModule'') (DataDesc (JBool True) False);
          e2 = (if toStringTag then defineProp e1 ToStringTag (DataDesc (JStr ''Module'') False)
                else e1)
      in fold (\<lambda>key e. defineProp e (Name key) (AccessorDesc (map_of getters key) True))
              (map fst getters) e2)"

section \<open>dynamicExport and its namespace view\<close>

text \<open>
  \<^verbatim>\<open>Reflect.get(obj, prop)\<close>: the value of an own data property, the result of calling
  an own accessor's getter (\<open>call\<close> gives the result of calling a function without
  arguments; no getter gives \<^verbatim>\<open>undefined\<close>), or what the prototype chain yields.
\<close>

definition reflectGet :: "(nat \<Rightarrow> jsval) \<Rightarrow> jsobject \<Rightarrow> propkey \<Rightarrow> jsval" where
  "reflectGet call obj prop =
     (case getOwnProperty obj prop of
        Some (DataDesc v _) \<Rightarrow> v
      | Some (AccessorDesc (Some g) _) \<Rightarrow> call g
      | Some (AccessorDesc None _) \<Rightarrow> JUndefined
      | None \<Rightarrow> inherited obj prop)"

text \<open>
  The loop of the \<^verbatim>\<open>get\<close> trap over \<^verbatim>\<open>reexportedObjects\<close>, falling through to
  \<^verbatim>\<open>return undefined\<close>.  \<open>heap\<close> maps a reference to the object as it is now.
\<close>

fun scanReexported ::
  "(nat \<Rightarrow> jsval) \<Rightarrow> (nat \<Rightarrow> jsobject) \<Rightarrow> nat list \<Rightarrow> propkey \<Rightarrow> jsval" where
  "scanReexported call heap [] prop = JUndefined"
| "scanReexported call heap (obj # objs) prop =
     (let v = reflectGet call (heap obj) prop
      in if v \<noteq> JUndefined then v else scanReexported call heap objs prop)"

text \<open>The \<^verbatim>\<open>get\<close> trap of the proxy over \<open>target\<close>.\<close>

definition proxyGet ::
  "(nat \<Rightarrow> jsval) \<Rightarrow> (nat \<Rightarrow> jsobject) \<Rightarrow> nat \<Rightarrow> nat list \<Rightarrow> propkey \<Rightarrow> jsval" where
  "proxyGet call heap target reexported prop =
     (if hasOwnProperty (heap target) prop \<or> prop = Name ''default''
         \<or> prop = Name ''__esModule''
      then reflectGet call (heap target) prop
      else scanReexported call heap reexported prop)"

text \<open>\<^verbatim>\<open>if (key !== "default" && !keys.includes(key)) keys.push(key)\<close>\<close>

definition pushKey :: "propkey \<Rightarrow> propkey list \<Rightarrow> propkey list" where
  "pushKey key keys =
     (if key \<noteq> Name ''default'' \<and> key \<notin> set keys then keys @ [key] else keys)"

text \<open>The \<^verbatim>\<open>ownKeys\<close> trap.\<close>

definition proxyOwnKeys :: "(nat \<Rightarrow> jsobject) \<Rightarrow> nat \<Rightarrow> nat list \<Rightarrow> propkey list" where
  "proxyOwnKeys heap target reexported =
     fold (\<lambda>obj keys. fold pushKey (ownKeys (heap obj)) keys) reexported
          (ownKeys (heap target))"

text \<open>\<^verbatim>\<open>isPromise\<close>, on the classes of values of the model.\<close>

fun isPromise :: "jsval \<Rightarrow> bool" where
  "isPromise (JPromise _) = True"
| "isPromise (JAsyncPromise _) = True"
| "isPromise _ = False"

text \<open>
  \<^verbatim>\<open>dynamicExport(module, exports, object)\<close>, with \<open>exports\<close> and \<open>object\<close>
  references into the heap.  The proxy's traps close over the array that is also
  \<^verbatim>\<open>module[REEXPORTED_OBJECTS]\<close>, so they see every later \<^verbatim>\<open>push\<close>.
\<close>

definition dynamicExport :: "Module \<Rightarrow> nat \<Rightarrow> nat \<Rightarrow> Module" where
  "dynamicExport module exports object =
     (case reexportedObjects module of
        Some objs \<Rightarrow> module\<lparr>reexportedObjects := Some (objs @ [object])\<rparr>
      | None \<Rightarrow>
          module\<lparr>namespaceObject :=
                   Some (if isPromise (moduleExports module)
                         then NsDeferred (moduleExports module) exports
                         else NsProxy exports),
                 reexportedObjects := Some [object]\<rparr>)"

text \<open>
  Reading a property of, and enumerating, the namespace view of a module on which
  \<^verbatim>\<open>dynamicExport\<close> has run: the traps of its proxy applied to the module's current list
  (for a deferred view, of the proxy the promise resolves to).  \<open>None\<close> when the
  module's namespace object is not such a view.
\<close>

definition viewGet ::
  "(nat \<Rightarrow> jsval) \<Rightarrow> (nat \<Rightarrow> jsobject) \<Rightarrow> Module \<Rightarrow> propkey \<Rightarrow> jsval option" where
  "viewGet call heap module prop =
     (case (namespaceObject module, reexportedObjects module) of
        (Some (NsProxy target), Some objs) \<Rightarrow> Some (proxyGet call heap target objs prop)
      | (Some (NsDeferred p target), Some objs) \<Rightarrow> Some (proxyGet call heap target objs prop)
      | _ \<Rightarrow> None)"

definition viewOwnKeys :: "(nat \<Rightarrow> jsobject) \<Rightarrow> Module \<Rightarrow> propkey list option" where
  "viewOwnKeys heap module =
     (case (namespaceObject module, reexportedObjects module) of
        (Some (NsProxy target), Some objs) \<Rightarrow> Some (proxyOwnKeys heap target objs)
      | (Some (NsDeferred p target), Some objs) \<Rightarrow> Some (proxyOwnKeys heap target objs)
      | _ \<Rightarrow> None)"

text \<open>
  The enumeration as the specification words it: the primary object's own keys first,
  then the sources' own keys in registration order, without \<^verbatim>\<open>"default"\<close> and without
  a key listed before.
\<close>

definition specViewKeys :: "propkey list \<Rightarrow> propkey list list \<Rightarrow> propkey list" where
  "specViewKeys primary sources =
     primary @ firstOccurrences
       (filter (\<lambda>k. k \<noteq> Name ''default'' \<and> k \<notin> set primary) (concat sources))"

section \<open>requireContext\<close>

text \<open>
  A module id is used as a property key and inside a template string, both of which see
  its string form, so ids are strings here.  An entry of the map is an object holding the
  function \<^verbatim>\<open>id\<close>.
\<close>

type_synonym ModuleId = string

record RequireContextEntry =
  entryId :: "unit \<Rightarrow> ModuleId"

text \<open>
  The map is an object: \<open>entries\<close> are its own keys, in the order of
  \<^verbatim>\<open>Object.keys\<close>, with their entries, and \<open>inheritedValue\<close> is what a property read
  of a name that is not an own key finds on the prototype chain, \<^verbatim>\<open>undefined\<close> when
  nothing.  For a map written as an object literal these are the members of
  \<^verbatim>\<open>Object.prototype\<close>.
\<close>

record RequireContextMap =
  entries :: "(ModuleId \<times> RequireContextEntry) list"
  inheritedValue :: "ModuleId \<Rightarrow> jsval"

text \<open>What \<^verbatim>\<open>map[id]\<close> evaluates to: an entry of the map, or some other value.\<close>

datatype mapValue = EntryValue RequireContextEntry | OtherValue jsval

text \<open>\<^verbatim>\<open>map[id]\<close>\<close>

definition mapGet :: "RequireContextMap \<Rightarrow> ModuleId \<Rightarrow> mapValue" where
  "mapGet ctxmap ident =
     (case map_of (entries ctxmap) ident of
        Some entry \<Rightarrow> EntryValue entry
      | None \<Rightarrow> OtherValue (inheritedValue ctxmap ident))"

text \<open>The truthiness that \<^verbatim>\<open>!entry\<close> tests; an entry is an object.\<close>

fun truthyValue :: "mapValue \<Rightarrow> bool" where
  "truthyValue (EntryValue entry) = True"
| "truthyValue (OtherValue v) = truthy v"

text \<open>
  The errors thrown here: the \<^verbatim>\<open>Error\<close> that the source constructs, with its message,
  and the \<^verbatim>\<open>TypeError\<close> of the host for calling something that is not a function.
\<close>

datatype jserror = Error string | TypeError

text \<open>
  The function \<^verbatim>\<open>requireContext(id)\<close> that \<^verbatim>\<open>requireContext(sourceModule, map)\<close>
  returns.  \<^verbatim>\<open>commonJsRequireContext\<close> belongs to the surrounding runtime, not to this
  file: it is the parameter \<open>commonJsRequireContext\<close>, acting on a registry of type
  \<open>'r\<close> and returning exports of type \<open>'e\<close> or throwing.  It is handed whatever
  \<^verbatim>\<open>map[id]\<close> gave.
\<close>

definition requireContextCall ::
  "(mapValue \<Rightarrow> 'm \<Rightarrow> 'r \<Rightarrow> (jserror + 'e) \<times> 'r) \<Rightarrow> 'm
     \<Rightarrow> RequireContextMap \<Rightarrow> ModuleId \<Rightarrow> 'r \<Rightarrow> (jserror + 'e) \<times> 'r" where
  "requireContextCall commonJsRequireContext sourceModule ctxmap ident registry =
     (let entry = mapGet ctxmap ident
      in if \<not> truthyValue entry then
           (Inl (Error (''module '' @ ident @
                   '' is required from a require.context, but is not in the context'')),
            registry)
         else commonJsRequireContext entry sourceModule registry)"

text \<open>\<^verbatim>\<open>requireContext.keys\<close>: \<^verbatim>\<open>Object.keys(map)\<close>, the own keys.\<close>

definition requireContextKeys :: "RequireContextMap \<Rightarrow> ModuleId list" where
  "requireContextKeys ctxmap = map fst (entries ctxmap)"

text \<open>
  \<^verbatim>\<open>requireContext.resolve\<close>; it is handed the registry only to show that it returns
  it as it was.  On a value that is not an entry, \<^verbatim>\<open>entry.id\<close> is \<^verbatim>\<open>undefined\<close>
  (no member of \<^verbatim>\<open>Object.prototype\<close> has a property of that name), and calling it is
  a \<^verbatim>\<open>TypeError\<close>.
\<close>

definition requireContextResolve ::
  "RequireContextMap \<Rightarrow> ModuleId \<Rightarrow> 'r \<Rightarrow> (jserror + ModuleId) \<times> 'r" where
  "requireContextResolve ctxmap ident registry =
     (let entry = mapGet ctxmap ident
      in if \<not> truthyValue entry then
           (Inl (Error (''module '' @ ident @
                   '' is resolved from a require.context, but is not in the context'')),
            registry)
         else (case entry of
                 EntryValue e \<Rightarrow> (Inr (entryId e ()), registry)
               | OtherValue v \<Rightarrow> (Inl TypeError, registry)))"

section \<open>Example stores\<close>

text \<open>The store before anything has been allocated.\<close>

definition emptyStore :: state where
  "emptyStore =
     \<lparr>queues = (\<lambda>_. \<lparr>resolved = False, fns = []\<rparr>),
      conts = (\<lambda>_. \<lparr>queueCount = 0, currentDeps = []\<rparr>),
      mods = (\<lambda>_. \<lparr>queue = None, depQueues = [], turbopackExports = JUndefined,
                     promise = Pending, turbopackError = None\<rparr>),
      wraps = (\<lambda>_. \<lparr>wrappedExports = JUndefined, wrappedError = None, wrappedQueue = 0\<rparr>),
      nextQueue = 0, nextFn = 0, nextMod = 0, nextWrap = 0, nextObj = 0,
      fired = []\<rparr>"

text \<open>
  Two unresolved queues and two continuations: continuation 0 waits on queue 0 only,
  continuation 1 on both queues.
\<close>

definition twoWaiters :: state where
  "twoWaiters =
     emptyStore
       \<lparr>queues := (queues emptyStore)
           (0 := \<lparr>resolved = False, fns = [0, 1]\<rparr>, 1 := \<lparr>resolved = False, fns = [1]\<rparr>),
        conts := (conts emptyStore)
           (0 := \<lparr>queueCount = 1, currentDeps = []\<rparr>, 1 := \<lparr>queueCount = 2, currentDeps = []\<rparr>),
        nextQueue := 2, nextFn := 2\<rparr>"

text \<open>
  Module scope 0 has a suspension point and is pending: its queue 0 is unresolved.  Module
  scope 1 awaits it: continuation 0, made by a call of \<open>handleAsyncDependencies 1\<close>
  on the promise of scope 0, stands in queue 0 with count 1.
\<close>

definition awaitingStore :: state where
  "awaitingStore =
     emptyStore
       \<lparr>queues := (queues emptyStore)
           (0 := \<lparr>resolved = False, fns = [0]\<rparr>, 1 := \<lparr>resolved = False, fns = []\<rparr>),
        conts := (conts emptyStore)(0 := \<lparr>queueCount = 1, currentDeps = [ExtModule 0]\<rparr>),
        mods := (mods emptyStore)
           (0 := \<lparr>queue = Some 0, depQueues = [], turbopackExports = JObj 0,
                  promise = Pending, turbopackError = None\<rparr>,
            1 := \<lparr>queue = Some 1, depQueues = [0], turbopackExports = JObj 1,
                  promise = Pending, turbopackError = None\<rparr>),
        nextQueue := 2, nextFn := 1, nextMod := 2, nextObj := 2\<rparr>"

text \<open>The same two module scopes before scope 1 has awaited anything.\<close>

definition pendingStore :: state where
  "pendingStore =
     emptyStore
       \<lparr>queues := (queues emptyStore)
           (0 := \<lparr>resolved = False, fns = []\<rparr>, 1 := \<lparr>resolved = False, fns = []\<rparr>),
        mods := (mods emptyStore)
           (0 := \<lparr>queue = Some 0, depQueues = [], turbopackExports = JObj 0,
                  promise = Pending, turbopackError = None\<rparr>,
            1 := \<lparr>queue = Some 1, depQueues = [], turbopackExports = JObj 1,
                  promise = Pending, turbopackError = None\<rparr>),
        nextQueue := 2, nextMod := 2, nextObj := 2\<rparr>"

text \<open>The store in which module scope 0 has completed with an error before anyone
  awaited it.\<close>

definition failedStore :: state where
  "failedStore = asyncResult 0 (JStr ''boom'') pendingStore"

text \<open>The store in which module scope 0 has completed successfully before anyone
  awaited it.\<close>

definition settledStore :: state where
  "settledStore = asyncResult 0 JUndefined pendingStore"

text \<open>A module record whose exports object is object 0, before any export call.\<close>

definition exampleModule :: Module where
  "exampleModule =
     \<lparr>moduleExports = JObj 0, namespaceObject = None, reexportedObjects = None\<rparr>"

text \<open>A body that looks at the flag of its own queue as soon as it starts, and throws
  when it finds the queue resolved.\<close>

definition probeBody :: "nat \<Rightarrow> state \<Rightarrow> jsval + state" where
  "probeBody m s =
     (case queue (mods s m) of
        None \<Rightarrow> Inr s
      | Some q \<Rightarrow> if resolved (queues s q) then Inl (JStr ''resolved'') else Inr s)"

text \<open>A body that suspends at once: it returns without having called either callback.\<close>

definition idleBody :: "nat \<Rightarrow> state \<Rightarrow> jsval + state" where
  "idleBody m s = Inr s"

section \<open>Example objects\<close>

definition plainObject :: "(propkey \<times> descriptor) list \<Rightarrow> jsobject" where
  "plainObject ps = \<lparr>props = ps, inherited = (\<lambda>_. JUndefined)\<rparr>"

text \<open>An exports object on which user code has already set \<^verbatim>\<open>a\<close>.\<close>

definition userExports :: jsobject where
  "userExports = plainObject [(Name ''a'', DataDesc (JNum 1) True)]"

text \<open>Getters for \<^verbatim>\<open>a\<close> and \<^verbatim>\<open>b\<close>: the functions 10 and 11.\<close>

definition exampleGetters :: "(string \<times> nat) list" where
  "exampleGetters = [(''a'', 10), (''b'', 11)]"

text \<open>
  A heap for \<^verbatim>\<open>dynamicExport\<close>: object 0 is the primary exports object with own key
  \<^verbatim>\<open>own\<close>; objects 1, 2 and 3 are sources, 1 with keys \<^verbatim>\<open>a\<close> and \<^verbatim>\<open>default\<close>,
  2 with key \<^verbatim>\<open>b\<close>, 3 with keys \<^verbatim>\<open>a\<close> and \<^verbatim>\<open>c\<close>.
\<close>

definition exampleHeap :: "nat \<Rightarrow> jsobject" where
  "exampleHeap =
     (\<lambda>_. plainObject [])
       (0 := plainObject [(Name ''own'', DataDesc (JNum 0) True)],
        1 := plainObject [(Name ''a'', DataDesc (JNum 1) True),
                          (Name ''default'', DataDesc (JNum 9) True)],
        2 := plainObject [(Name ''b'', DataDesc (JNum 2) True)],
        3 := plainObject [(Name ''a'', DataDesc (JNum 3) True),
                          (Name ''c'', DataDesc (JNum 4) True)])"

text \<open>No getter is called in the examples.\<close>

definition noCall :: "nat \<Rightarrow> jsval" where
  "noCall g = JUndefined"

text \<open>A module that has re-exported the sources 1 and 2 over its exports object 0.\<close>

definition reexportingModule :: Module where
  "reexportingModule = dynamicExport (dynamicExport exampleModule 0 1) 0 2"

section \<open>Example context\<close>

text \<open>
  What an object literal inherits from \<^verbatim>\<open>Object.prototype\<close>: eleven functions and the
  accessor \<^verbatim>\<open>__proto__\<close>, which reads as the prototype object.
\<close>

definition objectPrototype :: "ModuleId \<Rightarrow> jsval" where
  "objectPrototype name =
     (case map_of
        [(''constructor'', JFun 0), (''toString'', JFun 1), (''toLocaleString'', JFun 2),
         (''valueOf'', JFun 3), (''hasOwnProperty'', JFun 4), (''isPrototypeOf'', JFun 5),
         (''propertyIsEnumerable'', JFun 6), (''__defineGetter__'', JFun 7),
         (''__defineSetter__'', JFun 8), (''__lookupGetter__'', JFun 9),
         (''__lookupSetter__'', JFun 10), (''__proto__'', JObj 0)] name of
        Some v \<Rightarrow> v
      | None \<Rightarrow> JUndefined)"

text \<open>The map \<^verbatim>\<open>{ "./x": { id: () => "10" }, "./y": { id: () => "11" } }\<close>.\<close>

definition exampleContext :: RequireContextMap where
  "exampleContext =
     \<lparr>entries = [(''./x'', \<lparr>entryId = (\<lambda>_. ''10'')\<rparr>), (''./y'', \<lparr>entryId = (\<lambda>_. ''11'')\<rparr>)],
      inheritedValue = objectPrototype\<rparr>"

text \<open>
  A registry that is the list of what it has been asked to instantiate, latest first: the
  id of an entry, or the value it was handed in place of an entry.
\<close>

definition recordingRequire ::
  "mapValue \<Rightarrow> unit \<Rightarrow> mapValue list \<Rightarrow> (jserror + ModuleId) \<times> mapValue list" where
  "recordingRequire entry sourceModule registry =
     (case entry of
        EntryValue e \<Rightarrow> (Inr (entryId e ()), entry # registry)
      | OtherValue v \<Rightarrow> (Inl TypeError, entry # registry))"

section \<open>First occurrences\<close>

lemma filter_firstOccurrences:
  "filter P (firstOccurrences xs) = firstOccurrences (filter P xs)"
proof (induction xs)
  case Nil
  show ?case by simp
next
  case (Cons a xs)
  show ?case
  proof (cases "P a")
    case True
    have "filter P (firstOccurrences (a # xs))
        = a # filter (\<lambda>y. y \<noteq> a) (filter P (firstOccurrences xs))"
      using True by (simp add: conj_commute)
    then show ?thesis using True by (simp add: Cons.IH)
  next
    case False
    have "filter P (firstOccurrences (a # xs))
        = filter P (filter (\<lambda>y. y \<noteq> a) (firstOccurrences xs))"
      using False by simp
    also have "\<dots> = filter P (firstOccurrences xs)"
      unfolding filter_filter using False by (intro filter_cong) auto
    also have "\<dots> = firstOccurrences (filter P xs)"
      by (rule Cons.IH)
    also have "\<dots> = firstOccurrences (filter P (a # xs))"
      using False by simp
    finally show ?thesis .
  qed
qed

lemma set_firstOccurrences [simp]: "set (firstOccurrences xs) = set xs"
  by (induction xs) auto

lemma distinct_firstOccurrences [simp]: "distinct (firstOccurrences xs)"
  by (induction xs) auto

section \<open>The two passes of resolveQueue\<close>

lemma fold_decrementCount:
  "fold decrementCount fs s =
     s\<lparr>conts := (\<lambda>f. (conts s f)\<lparr>queueCount := queueCount (conts s f) - int (count_list fs f)\<rparr>)\<rparr>"
proof (induction fs arbitrary: s)
  case Nil
  show ?case by simp
next
  case (Cons g fs)
  have "fold decrementCount (g # fs) s = fold decrementCount fs (decrementCount g s)"
    by simp
  also have "\<dots> = (decrementCount g s)\<lparr>conts := (\<lambda>f. (conts (decrementCount g s) f)
      \<lparr>queueCount := queueCount (conts (decrementCount g s) f) - int (count_list fs f)\<rparr>)\<rparr>"
    by (rule Cons.IH)
  also have "\<dots> = s\<lparr>conts := (\<lambda>f. (conts s f)
      \<lparr>queueCount := queueCount (conts s f) - int (count_list (g # fs) f)\<rparr>)\<rparr>"
    by (auto simp add: decrementCount_def fun_eq_iff)
  finally show ?case .
qed

lemma fireIfZero_eq:
  "fireIfZero f s =
     (if queueCount (conts s f) \<noteq> 0 then s
      else s\<lparr>conts := (conts s)(f := (conts s f)\<lparr>queueCount := -1\<rparr>), fired := fired s @ [f]\<rparr>)"
  by (simp add: fireIfZero_def callFn_def Let_def)

lemma fold_fireIfZero:
  "fold fireIfZero fs s =
     s\<lparr>conts := (\<lambda>f. if f \<in> set fs \<and> queueCount (conts s f) = 0
                      then (conts s f)\<lparr>queueCount := -1\<rparr> else conts s f),
       fired := fired s @ firstOccurrences (filter (\<lambda>f. queueCount (conts s f) = 0) fs)\<rparr>"
proof (induction fs arbitrary: s)
  case Nil
  show ?case by simp
next
  case (Cons g fs)
  define s1 where "s1 = fireIfZero g s"
  have step: "fold fireIfZero (g # fs) s = fold fireIfZero fs s1"
    by (simp add: s1_def)
  have ih: "fold fireIfZero fs s1 =
     s1\<lparr>conts := (\<lambda>f. if f \<in> set fs \<and> queueCount (conts s1 f) = 0
                      then (conts s1 f)\<lparr>queueCount := -1\<rparr> else conts s1 f),
       fired := fired s1 @ firstOccurrences (filter (\<lambda>f. queueCount (conts s1 f) = 0) fs)\<rparr>"
    by (rule Cons.IH)
  show ?case
  proof (cases "queueCount (conts s g) = 0")
    case True
    then have s1: "s1 = s\<lparr>conts := (conts s)(g := (conts s g)\<lparr>queueCount := -1\<rparr>), fired := fired s @ [g]\<rparr>"
      by (simp add: s1_def fireIfZero_eq)
    have flt: "filter (\<lambda>f. queueCount (conts s1 f) = 0) fs
        = filter (\<lambda>f. f \<noteq> g) (filter (\<lambda>f. queueCount (conts s f) = 0) fs)"
      unfolding filter_filter by (rule filter_cong) (auto simp: s1)
    show ?thesis
      unfolding step ih flt
      using True by (auto simp add: s1 fun_eq_iff filter_firstOccurrences)
  next
    case False
    then have s1: "s1 = s" by (simp add: s1_def fireIfZero_eq)
    show ?thesis
      unfolding step ih using False by (auto simp add: s1 fun_eq_iff)
  qed
qed

lemma count_list_firstOccurrences:
  "count_list (firstOccurrences xs) x = (if x \<in> set xs then 1 else 0)"
proof (induction xs)
  case Nil
  show ?case by simp
next
  case (Cons a xs)
  have "count_list (filter (\<lambda>y. y \<noteq> a) ys) x = (if x = a then 0 else count_list ys x)" for ys
    by (induction ys) auto
  then show ?case using Cons.IH by auto
qed

lemma resolveQueue_resolved:
  "resolved (queues s q) \<Longrightarrow> resolveQueue (Some q) s = s"
  by (simp add: resolveQueue_def)

lemma resolveQueue_unresolved:
  assumes "\<not> resolved (queues s q)"
  shows "resolveQueue (Some q) s =
     s\<lparr>queues := (queues s)(q := (queues s q)\<lparr>resolved := True\<rparr>),
       conts := (\<lambda>f. (conts s f)\<lparr>queueCount :=
                  (if f \<in> set (fns (queues s q))
                      \<and> queueCount (conts s f) = int (count_list (fns (queues s q)) f)
                   then -1
                   else queueCount (conts s f) - int (count_list (fns (queues s q)) f))\<rparr>),
       fired := fired s @ firstOccurrences
                  (filter (\<lambda>f. queueCount (conts s f) = int (count_list (fns (queues s q)) f))
                          (fns (queues s q)))\<rparr>"
  using assms
  by (auto simp add: resolveQueue_def markResolved_def Let_def fold_decrementCount
        fold_fireIfZero fun_eq_iff intro!: arg_cong[where f = firstOccurrences] filter_cong)

text \<open>
  Claim C1.  On a queue that is not yet resolved, \<^verbatim>\<open>resolveQueue\<close> is the pass
  that fires, run on the store \<open>s1\<close> left by the complete pass that decrements, which
  starts from the store with the flag set.  The decrementing pass calls no continuation
  and lowers each count by the number of times the continuation stands in the queue.
  The firing pass then calls exactly the continuations of the queue whose count is zero in
  \<open>s1\<close>, each once, in queue order, leaving their count at \<open>-1\<close> and every
  other count as in \<open>s1\<close>.  A second call on the same queue changes nothing, so
  over both calls no continuation is called more than once.
\<close>

theorem resolveQueue_two_phase:
  assumes "\<not> resolved (queues s q)"
  shows "(let fs = fns (queues s q);
              s1 = fold decrementCount fs (markResolved q s);
              s2 = resolveQueue (Some q) s
          in s2 = fold fireIfZero fs s1
             \<and> resolved (queues s1 q) \<and> resolved (queues s2 q)
             \<and> fired s1 = fired s
             \<and> (\<forall>f. queueCount (conts s1 f) = queueCount (conts s f) - int (count_list fs f))
             \<and> fired s2 = fired s @ firstOccurrences (filter (\<lambda>f. queueCount (conts s1 f) = 0) fs)
             \<and> (\<forall>f. queueCount (conts s2 f) =
                      (if f \<in> set fs \<and> queueCount (conts s1 f) = 0 then -1
                       else queueCount (conts s1 f)))
             \<and> resolveQueue (Some q) s2 = s2
             \<and> (\<forall>f. count_list (fired (resolveQueue (Some q) s2)) f \<le> count_list (fired s) f + 1))"
proof -
  define fs where "fs = fns (queues s q)"
  define s1 where "s1 = fold decrementCount fs (markResolved q s)"
  define s2 where "s2 = resolveQueue (Some q) s"
  have fs1: "fns (queues (markResolved q s) q) = fs"
    by (simp add: markResolved_def fs_def)
  have q1: "queues s1 = queues (markResolved q s)" and f1: "fired s1 = fired s"
    and c1: "\<And>f. queueCount (conts s1 f) = queueCount (conts s f) - int (count_list fs f)"
    by (simp_all add: s1_def fold_decrementCount markResolved_def)
  have two: "s2 = fold fireIfZero fs s1"
    using assms by (simp add: s2_def resolveQueue_def Let_def fs1 s1_def fold_decrementCount)
  have r1: "resolved (queues s1 q)"
    by (simp add: q1 markResolved_def)
  have r2: "resolved (queues s2 q)"
    by (simp add: two fold_fireIfZero r1)
  have f2: "fired s2 = fired s @ firstOccurrences (filter (\<lambda>f. queueCount (conts s1 f) = 0) fs)"
    by (simp add: two fold_fireIfZero f1)
  have c2: "\<And>f. queueCount (conts s2 f) =
      (if f \<in> set fs \<and> queueCount (conts s1 f) = 0 then -1 else queueCount (conts s1 f))"
    by (simp add: two fold_fireIfZero)
  have idem: "resolveQueue (Some q) s2 = s2"
    using r2 by (rule resolveQueue_resolved)
  have once: "count_list (fired (resolveQueue (Some q) s2)) f \<le> count_list (fired s) f + 1" for f
    by (simp add: idem f2 count_list_firstOccurrences)
  show ?thesis
    unfolding Let_def fs_def[symmetric] s1_def[symmetric] s2_def[symmetric]
    using two r1 r2 f1 c1 f2 c2 idem once by blast
qed

theorem resolveQueue_two_phase_witness:
  "\<not> resolved (queues twoWaiters 0)
   \<and> fired (fold decrementCount [0, 1] (markResolved 0 twoWaiters)) = []
   \<and> fired (resolveQueue (Some 0) twoWaiters) = [0]
   \<and> queueCount (conts (resolveQueue (Some 0) twoWaiters) 1) = 1
   \<and> resolved (queues (resolveQueue (Some 0) twoWaiters) 0)
   \<and> resolveQueue (Some 0) (resolveQueue (Some 0) twoWaiters) = resolveQueue (Some 0) twoWaiters"
proof -
  have h: "\<not> resolved (queues twoWaiters 0)"
    by (simp add: twoWaiters_def emptyStore_def)
  have run: "fired (fold decrementCount [0, 1] (markResolved 0 twoWaiters)) = []
      \<and> fired (resolveQueue (Some 0) twoWaiters) = [0]
      \<and> queueCount (conts (resolveQueue (Some 0) twoWaiters) 1) = 1"
    by (simp add: resolveQueue_def Let_def twoWaiters_def emptyStore_def markResolved_def
          decrementCount_def fireIfZero_def callFn_def)
  from resolveQueue_two_phase [OF h]
  have "resolved (queues (resolveQueue (Some 0) twoWaiters) 0)
      \<and> resolveQueue (Some 0) (resolveQueue (Some 0) twoWaiters) = resolveQueue (Some 0) twoWaiters"
    unfolding Let_def by blast
  with h run show ?thesis by blast
qed

section \<open>asyncResult\<close>

lemma mods_resolveQueue [simp]: "mods (resolveQueue qo s) = mods s"
  by (cases qo) (simp_all add: resolveQueue_def Let_def markResolved_def fold_decrementCount fold_fireIfZero)

lemma wraps_resolveQueue [simp]: "wraps (resolveQueue qo s) = wraps s"
  by (cases qo) (simp_all add: resolveQueue_def Let_def markResolved_def fold_decrementCount fold_fireIfZero)

lemma resolved_resolveQueue:
  "resolved (queues (resolveQueue (Some q) s) q)"
  by (simp add: resolveQueue_def Let_def markResolved_def fold_decrementCount fold_fireIfZero)

lemma extError_resolveQueue [simp]: "extError (resolveQueue qo s) d = extError s d"
  by (cases d) (simp_all add: extError_def)

text \<open>
  Claim C5.  Called with a truthy error, \<^verbatim>\<open>asyncResult\<close> rejects the module's
  promise with it (a pending promise becomes rejected with that error), records it as
  the promise's \<^verbatim>\<open>turbopackError\<close>, and returns normally, having resolved the
  module's queue: the flag is set, and when the queue was unresolved every continuation
  in it has had its count lowered by the number of times it stands in the queue, those
  that reached zero having been called, once each.  The error shows when the snapshot is
  read: \<^verbatim>\<open>getResult\<close> over this module throws it.
\<close>

theorem asyncResult_failure:
  assumes "truthy err"
  shows "(let s' = asyncResult m err s;
              fs = (case queue (mods s m) of None \<Rightarrow> [] | Some q \<Rightarrow> fns (queues s q))
          in promise (mods s' m) = rejectPromise err (promise (mods s m))
             \<and> (promise (mods s m) = Pending \<longrightarrow> promise (mods s' m) = Rejected err)
             \<and> turbopackError (mods s' m) = Some err
             \<and> getResult s' [ExtModule m] = Inl err
             \<and> (\<forall>q. queue (mods s m) = Some q \<longrightarrow>
                    queue (mods s' m) = Some q \<and> resolved (queues s' q)
                    \<and> (\<not> resolved (queues s q) \<longrightarrow>
                          fired s' = fired s @ firstOccurrences
                             (filter (\<lambda>f. queueCount (conts s f) = int (count_list fs f)) fs)
                          \<and> (\<forall>f. queueCount (conts s' f) =
                                (if f \<in> set fs \<and> queueCount (conts s f) = int (count_list fs f)
                                 then -1
                                 else queueCount (conts s f) - int (count_list fs f))))))"
proof -
  define s1 where "s1 = s\<lparr>mods := (mods s)(m := (mods s m)
          \<lparr>promise := rejectPromise err (promise (mods s m)), turbopackError := Some err\<rparr>)\<rparr>"
  have ar: "asyncResult m err s = resolveQueue (queue (mods s m)) s1"
    using assms by (simp add: asyncResult_def s1_def)
  have m1: "promise (mods s1 m) = rejectPromise err (promise (mods s m))"
    "turbopackError (mods s1 m) = Some err" "queue (mods s1 m) = queue (mods s m)"
    "queues s1 = queues s" "conts s1 = conts s" "fired s1 = fired s"
    by (simp_all add: s1_def)
  have gr: "getResult (asyncResult m err s) [ExtModule m] = Inl err"
    using assms by (simp add: ar extError_def m1)
  have qpart: "resolved (queues (asyncResult m err s) q)
      \<and> (\<not> resolved (queues s q) \<longrightarrow>
            fired (asyncResult m err s) = fired s @ firstOccurrences
               (filter (\<lambda>f. queueCount (conts s f) = int (count_list (fns (queues s q)) f)) (fns (queues s q)))
            \<and> (\<forall>f. queueCount (conts (asyncResult m err s) f) =
                  (if f \<in> set (fns (queues s q)) \<and> queueCount (conts s f) = int (count_list (fns (queues s q)) f)
                   then -1
                   else queueCount (conts s f) - int (count_list (fns (queues s q)) f))))"
    if "queue (mods s m) = Some q" for q
  proof -
    have ar': "asyncResult m err s = resolveQueue (Some q) s1" by (simp add: ar that)
    show ?thesis
      unfolding ar'
      by (auto simp add: resolved_resolveQueue resolveQueue_unresolved m1)
  qed
  show ?thesis
    unfolding Let_def
    using gr qpart by (auto simp add: ar m1)
qed

lemma falsy_values:
  "(\<not> truthy v) = (v \<in> {JUndefined, JNull, JBool False, JNum 0, JNaN, JStr []})"
  by (cases v) auto

text \<open>
  Claim C10.  A falsy argument is one of \<^verbatim>\<open>undefined\<close>, \<^verbatim>\<open>null\<close>,
  \<^verbatim>\<open>false\<close>, \<^verbatim>\<open>0\<close>, \<^verbatim>\<open>NaN\<close> and the empty string.  With any of them
  \<^verbatim>\<open>asyncResult\<close> does what it does without an argument: the promise is resolved with
  the exports object (a pending promise becomes resolved with it), the
  \<^verbatim>\<open>turbopackError\<close> property is left as it was, and the module's queue is resolved as
  on failure: the flag is set, and when the queue was unresolved every continuation in it
  has had its count lowered by the number of times it stands in the queue, those that
  reached zero having been called, once each, in queue order.  A queue that was already
  resolved, or a module without a queue, leaves queues, counts and calls as they were.
\<close>

theorem asyncResult_falsy:
  assumes "\<not> truthy err"
  shows "(let s' = asyncResult m err s;
              fs = (case queue (mods s m) of None \<Rightarrow> [] | Some q \<Rightarrow> fns (queues s q))
          in err \<in> {JUndefined, JNull, JBool False, JNum 0, JNaN, JStr []}
             \<and> s' = asyncResult m JUndefined s
             \<and> promise (mods s' m) = resolvePromise (turbopackExports (mods s m)) (promise (mods s m))
             \<and> (promise (mods s m) = Pending \<longrightarrow>
                   promise (mods s' m) = Resolved (turbopackExports (mods s m)))
             \<and> turbopackError (mods s' m) = turbopackError (mods s m)
             \<and> extError s' (ExtModule m) = extError s (ExtModule m)
             \<and> (queue (mods s m) = None \<longrightarrow>
                   fired s' = fired s \<and> conts s' = conts s \<and> queues s' = queues s)
             \<and> (\<forall>q. queue (mods s m) = Some q \<longrightarrow>
                    queue (mods s' m) = Some q \<and> resolved (queues s' q)
                    \<and> fns (queues s' q) = fs
                    \<and> (resolved (queues s q) \<longrightarrow>
                          fired s' = fired s \<and> conts s' = conts s \<and> queues s' = queues s)
                    \<and> (\<not> resolved (queues s q) \<longrightarrow>
                          fired s' = fired s @ firstOccurrences
                             (filter (\<lambda>f. queueCount (conts s f) = int (count_list fs f)) fs)
                          \<and> (\<forall>f. queueCount (conts s' f) =
                                (if f \<in> set fs \<and> queueCount (conts s f) = int (count_list fs f)
                                 then -1
                                 else queueCount (conts s f) - int (count_list fs f))))))"
proof -
  define s1 where "s1 = s\<lparr>mods := (mods s)(m := (mods s m)
          \<lparr>promise := resolvePromise (turbopackExports (mods s m)) (promise (mods s m))\<rparr>)\<rparr>"
  have ar: "asyncResult m err s = resolveQueue (queue (mods s m)) s1"
    using assms by (simp add: asyncResult_def s1_def)
  have au: "asyncResult m JUndefined s = resolveQueue (queue (mods s m)) s1"
    by (simp add: asyncResult_def s1_def)
  have fv: "err \<in> {JUndefined, JNull, JBool False, JNum 0, JNaN, JStr []}"
    using assms by (simp only: falsy_values)
  have m1: "promise (mods s1 m) = resolvePromise (turbopackExports (mods s m)) (promise (mods s m))"
    "turbopackError (mods s1 m) = turbopackError (mods s m)" "queue (mods s1 m) = queue (mods s m)"
    "queues s1 = queues s" "conts s1 = conts s" "fired s1 = fired s"
    by (simp_all add: s1_def)
  have ex: "extError (asyncResult m err s) (ExtModule m) = extError s (ExtModule m)"
    by (simp add: ar extError_def m1)
  have npart: "fired (asyncResult m err s) = fired s \<and> conts (asyncResult m err s) = conts s
      \<and> queues (asyncResult m err s) = queues s"
    if "queue (mods s m) = None"
    by (simp add: ar that resolveQueue_def m1)
  have qpart: "resolved (queues (asyncResult m err s) q)
      \<and> fns (queues (asyncResult m err s) q) = fns (queues s q)
      \<and> (resolved (queues s q) \<longrightarrow>
            fired (asyncResult m err s) = fired s \<and> conts (asyncResult m err s) = conts s
            \<and> queues (asyncResult m err s) = queues s)
      \<and> (\<not> resolved (queues s q) \<longrightarrow>
            fired (asyncResult m err s) = fired s @ firstOccurrences
               (filter (\<lambda>f. queueCount (conts s f) = int (count_list (fns (queues s q)) f)) (fns (queues s q)))
            \<and> (\<forall>f. queueCount (conts (asyncResult m err s) f) =
                  (if f \<in> set (fns (queues s q)) \<and> queueCount (conts s f) = int (count_list (fns (queues s q)) f)
                   then -1
                   else queueCount (conts s f) - int (count_list (fns (queues s q)) f))))"
    if "queue (mods s m) = Some q" for q
  proof (cases "resolved (queues s q)")
    case True
    then have "asyncResult m err s = s1"
      by (simp add: ar that resolveQueue_resolved m1)
    with True show ?thesis by (simp add: m1)
  next
    case False
    then have "\<not> resolved (queues s1 q)" by (simp add: m1)
    then show ?thesis
      unfolding ar that
      using False by (simp add: resolveQueue_unresolved m1)
  qed
  show ?thesis
    unfolding Let_def
    using fv ex npart qpart by (auto simp add: ar au m1)
qed

theorem asyncResult_failure_witness:
  "truthy (JStr ''boom'')
   \<and> promise (mods (asyncResult 0 (JStr ''boom'') awaitingStore) 0) = Rejected (JStr ''boom'')
   \<and> turbopackError (mods (asyncResult 0 (JStr ''boom'') awaitingStore) 0) = Some (JStr ''boom'')
   \<and> resolved (queues (asyncResult 0 (JStr ''boom'') awaitingStore) 0)
   \<and> fired (asyncResult 0 (JStr ''boom'') awaitingStore) = [0]
   \<and> getResult (asyncResult 0 (JStr ''boom'') awaitingStore) [ExtModule 0] = Inl (JStr ''boom'')"
proof -
  have h: "truthy (JStr ''boom'')" by simp
  have st: "queue (mods awaitingStore 0) = Some 0" "promise (mods awaitingStore 0) = Pending"
    "\<not> resolved (queues awaitingStore 0)" "fns (queues awaitingStore 0) = [0]"
    "queueCount (conts awaitingStore 0) = 1" "fired awaitingStore = []"
    by (simp_all add: awaitingStore_def emptyStore_def)
  show ?thesis
    using asyncResult_failure [OF h, of 0 awaitingStore]
    by (simp add: Let_def st)
qed

theorem asyncResult_falsy_witness:
  "\<not> truthy (JNum 0)
   \<and> asyncResult 0 (JNum 0) awaitingStore = asyncResult 0 JUndefined awaitingStore
   \<and> promise (mods (asyncResult 0 (JNum 0) awaitingStore) 0) = Resolved (JObj 0)
   \<and> turbopackError (mods (asyncResult 0 (JNum 0) awaitingStore) 0) = None
   \<and> resolved (queues (asyncResult 0 (JNum 0) awaitingStore) 0)
   \<and> fired (asyncResult 0 (JNum 0) awaitingStore) = [0]
   \<and> queueCount (conts (asyncResult 0 (JNum 0) awaitingStore) 0) = -1"
proof -
  have h: "\<not> truthy (JNum 0)" by simp
  have st: "queue (mods awaitingStore 0) = Some 0" "promise (mods awaitingStore 0) = Pending"
    "turbopackExports (mods awaitingStore 0) = JObj 0" "turbopackError (mods awaitingStore 0) = None"
    by (simp_all add: awaitingStore_def emptyStore_def)
  have qs: "\<not> resolved (queues awaitingStore 0)" "fns (queues awaitingStore 0) = [0]"
    "queueCount (conts awaitingStore 0) = 1" "fired awaitingStore = []"
    by (simp_all add: awaitingStore_def emptyStore_def)
  note t = asyncResult_falsy [OF h, of 0 awaitingStore, unfolded Let_def st option.case]
  from t have a: "asyncResult 0 (JNum 0) awaitingStore = asyncResult 0 JUndefined awaitingStore
      \<and> promise (mods (asyncResult 0 (JNum 0) awaitingStore) 0) = Resolved (JObj 0)
      \<and> turbopackError (mods (asyncResult 0 (JNum 0) awaitingStore) 0) = None
      \<and> resolved (queues (asyncResult 0 (JNum 0) awaitingStore) 0)"
    by blast
  from t qs(1) have "fired (asyncResult 0 (JNum 0) awaitingStore) = fired awaitingStore @ firstOccurrences
         (filter (\<lambda>f. queueCount (conts awaitingStore f)
                        = int (count_list (fns (queues awaitingStore 0)) f))
                 (fns (queues awaitingStore 0)))"
    and "queueCount (conts (asyncResult 0 (JNum 0) awaitingStore) 0) =
          (if 0 \<in> set (fns (queues awaitingStore 0))
              \<and> queueCount (conts awaitingStore 0) = int (count_list (fns (queues awaitingStore 0)) 0)
           then -1
           else queueCount (conts awaitingStore 0) - int (count_list (fns (queues awaitingStore 0)) 0))"
    by blast+
  then have b: "fired (asyncResult 0 (JNum 0) awaitingStore) = [0]
      \<and> queueCount (conts (asyncResult 0 (JNum 0) awaitingStore) 0) = -1"
    by (simp add: qs)
  from h a b show ?thesis by blast
qed

section \<open>asyncModule\<close>

lemma asyncModuleSetup_True:
  "asyncModuleSetup module True s =
     (nextMod s, Some (nextQueue s), module\<lparr>moduleExports := JAsyncPromise (nextMod s)\<rparr>,
      s\<lparr>queues := (queues s)(nextQueue s := \<lparr>resolved = True, fns = []\<rparr>),
        nextQueue := Suc (nextQueue s),
        mods := (mods s)(nextMod s := \<lparr>queue = Some (nextQueue s), depQueues = [],
                  turbopackExports = moduleExports module, promise = Pending,
                  turbopackError = None\<rparr>),
        nextMod := Suc (nextMod s)\<rparr>)"
  by (simp add: asyncModuleSetup_def Let_def)

text \<open>
  Claim C2, as amended.  With \<^verbatim>\<open>hasAwait\<close> the queue of the module is created
  resolved and empty, and that is the queue the body finds when it starts running, in the
  store \<open>s1\<close>.  The flag is set to unresolved after the body has returned: when the
  body returns with the module's promise still pending, \<^verbatim>\<open>asyncModule\<close> returns the
  body's store with only that flag changed to \<open>False\<close>.  When the body throws,
  \<^verbatim>\<open>asyncModule\<close> throws the same value.
\<close>

theorem asyncModule_flag_after_body:
  assumes "asyncModuleSetup module True s = (m, qo, module1, s1)"
  shows "qo = Some (nextQueue s) \<and> queue (mods s1 m) = Some (nextQueue s)
         \<and> queues s1 (nextQueue s) = \<lparr>resolved = True, fns = []\<rparr>
         \<and> promise (mods s1 m) = Pending
         \<and> moduleExports module1 = JAsyncPromise m
         \<and> (\<forall>e. body m s1 = Inl e \<longrightarrow> asyncModule module body True s = Inl e)
         \<and> (\<forall>s2. body m s1 = Inr s2 \<and> promise (mods s2 m) = Pending \<longrightarrow>
                (\<exists>s3. asyncModule module body True s = Inr (module1, s3)
                      \<and> \<not> resolved (queues s3 (nextQueue s))
                      \<and> s3 = s2\<lparr>queues := (queues s2)
                                (nextQueue s := (queues s2 (nextQueue s))\<lparr>resolved := False\<rparr>)\<rparr>))"
  using assms
  by (auto simp add: asyncModuleSetup_True asyncModule_def)

theorem asyncModule_flag_after_body_witness:
  "asyncModuleSetup exampleModule True emptyStore =
     (0, Some 0, exampleModule\<lparr>moduleExports := JAsyncPromise 0\<rparr>,
      snd (snd (snd (asyncModuleSetup exampleModule True emptyStore))))
   \<and> resolved (queues (snd (snd (snd (asyncModuleSetup exampleModule True emptyStore)))) 0)
   \<and> (\<exists>s3. asyncModule exampleModule idleBody True emptyStore
                = Inr (exampleModule\<lparr>moduleExports := JAsyncPromise 0\<rparr>, s3)
            \<and> \<not> resolved (queues s3 0))"
proof -
  define s1 where "s1 = snd (snd (snd (asyncModuleSetup exampleModule True emptyStore)))"
  have h: "asyncModuleSetup exampleModule True emptyStore =
     (0, Some 0, exampleModule\<lparr>moduleExports := JAsyncPromise 0\<rparr>, s1)"
    by (simp add: s1_def asyncModuleSetup_True emptyStore_def)
  have p: "idleBody 0 s1 = Inr s1 \<and> promise (mods s1 0) = Pending"
    by (simp add: idleBody_def s1_def asyncModuleSetup_True emptyStore_def)
  have n: "nextQueue emptyStore = 0" by (simp add: emptyStore_def)
  from asyncModule_flag_after_body [OF h, of idleBody] p
  show ?thesis
    unfolding s1_def [symmetric] n using h by auto
qed

text \<open>
  Claim C2 as stated fails: a body that reads the flag of its own queue when it starts
  finds the queue resolved.
\<close>

theorem asyncModule_body_sees_resolved:
  "asyncModule exampleModule probeBody True emptyStore = Inl (JStr ''resolved'')
   \<and> fst (snd (asyncModuleSetup exampleModule True emptyStore)) = Some 0
   \<and> resolved (queues (snd (snd (snd (asyncModuleSetup exampleModule True emptyStore)))) 0)"
  by (simp add: asyncModule_def asyncModuleSetup_True emptyStore_def probeBody_def)

section \<open>esm\<close>

lemma hasOwnProperty_iff: "hasOwnProperty obj name = (getOwnProperty obj name \<noteq> None)"
  by (simp add: hasOwnProperty_def getOwnProperty_def ownKeys_def map_of_eq_None_iff)

lemma getOwnProperty_defineProp:
  "getOwnProperty (defineProp obj n d) name =
     (case getOwnProperty obj name of
        Some d' \<Rightarrow> Some d'
      | None \<Rightarrow> if name = n then Some d else None)"
  by (auto simp add: defineProp_def hasOwnProperty_iff getOwnProperty_def map_add_def
        split: option.splits)

lemma hasOwnProperty_defineProp:
  "hasOwnProperty (defineProp obj n d) name = (hasOwnProperty obj name \<or> name = n)"
  by (simp add: hasOwnProperty_iff getOwnProperty_defineProp split: option.splits)

lemma defineProp_owned: "hasOwnProperty obj n \<Longrightarrow> defineProp obj n d = obj"
  by (simp add: defineProp_def)

lemma inherited_defineProp [simp]: "inherited (defineProp obj n d) = inherited obj"
  by (simp add: defineProp_def)

lemma getOwnProperty_fold_defineProp:
  "getOwnProperty (fold (\<lambda>key e. defineProp e (Name key) (D key)) keys e) name =
     (case getOwnProperty e name of
        Some d \<Rightarrow> Some d
      | None \<Rightarrow> (case name of
                    Name k \<Rightarrow> if k \<in> set keys then Some (D k) else None
                  | _ \<Rightarrow> None))"
proof (induction keys arbitrary: e)
  case Nil
  show ?case by (simp split: option.splits propkey.splits)
next
  case (Cons key keys)
  show ?case
    by (simp add: Cons.IH getOwnProperty_defineProp split: option.splits propkey.splits)
qed

lemma inherited_fold_defineProp [simp]:
  "inherited (fold (\<lambda>key e. defineProp e (Name key) (D key)) keys e) = inherited e"
  by (induction keys arbitrary: e) simp_all

lemma fold_defineProp_owned:
  "(\<And>k. k \<in> set keys \<Longrightarrow> hasOwnProperty e (Name k)) \<Longrightarrow>
   fold (\<lambda>key e. defineProp e (Name key) (D key)) keys e = e"
  by (induction keys arbitrary: e) (simp_all add: defineProp_owned)

lemma esm_Nil:
  "esm tst exports [] =
     (let e1 = defineProp exports (Name ''__esModule'') (DataDesc (JBool True) False)
      in if tst then defineProp e1 ToStringTag (DataDesc (JStr ''Module'') False) else e1)"
  by (simp add: esm_def Let_def)

lemma esm_fold:
  "esm tst exports getters =
     fold (\<lambda>key e. defineProp e (Name key) (AccessorDesc (map_of getters key) True))
          (map fst getters) (esm tst exports [])"
  by (simp add: esm_def Let_def)

lemma hasOwnProperty_esm_Nil:
  "hasOwnProperty (esm tst exports []) name =
     (hasOwnProperty exports name \<or> name = Name ''__esModule'' \<or> (tst \<and> name = ToStringTag))"
  by (auto simp add: esm_Nil Let_def hasOwnProperty_defineProp)

lemma getOwnProperty_esm_Nil_old:
  "getOwnProperty exports name = Some d \<Longrightarrow> getOwnProperty (esm tst exports []) name = Some d"
  by (simp add: esm_Nil Let_def getOwnProperty_defineProp)

lemma hasOwnProperty_esm:
  "hasOwnProperty (esm tst exports getters) name =
     (hasOwnProperty (esm tst exports []) name \<or> name \<in> Name ` set (map fst getters))"
  unfolding esm_fold [of tst exports getters] hasOwnProperty_iff getOwnProperty_fold_defineProp
  by (auto split: option.splits propkey.splits)

text \<open>
  Claim C7.  \<open>stamped\<close> is the target as the loop over the getters finds it, after
  the markers have been defined (\<^verbatim>\<open>esm\<close> with no getters); it owns what the target
  owned and the markers.  For every name of \<^verbatim>\<open>getters\<close>: when the target does not own
  the name at that point, the result has the enumerable accessor with that getter; when it
  does, the result has the property it had.  No property the target owned before the call
  is changed, no name other than the markers and the getters' is added, and a second call
  with the same getters returns the object unchanged.
\<close>

theorem esm_defines_missing_only:
  "(let stamped = esm tst exports [];
        result = esm tst exports getters
    in (\<forall>name d. getOwnProperty exports name = Some d \<longrightarrow> getOwnProperty result name = Some d)
       \<and> (\<forall>name. hasOwnProperty stamped name =
             (hasOwnProperty exports name \<or> name = Name ''__esModule''
              \<or> (tst \<and> name = ToStringTag)))
       \<and> (\<forall>key \<in> set (map fst getters).
             getOwnProperty result (Name key) =
               (if hasOwnProperty stamped (Name key) then getOwnProperty stamped (Name key)
                else Some (AccessorDesc (map_of getters key) True)))
       \<and> (\<forall>name. hasOwnProperty result name =
             (hasOwnProperty stamped name \<or> name \<in> Name ` set (map fst getters)))
       \<and> inherited result = inherited exports
       \<and> esm tst result getters = result)"
proof -
  define stamped where "stamped = esm tst exports []"
  define result where "result = esm tst exports getters"
  have res: "result = fold (\<lambda>key e. defineProp e (Name key) (AccessorDesc (map_of getters key) True))
          (map fst getters) stamped"
    unfolding result_def stamped_def by (rule esm_fold)
  have keep: "getOwnProperty result name = Some d" if "getOwnProperty exports name = Some d" for name d
    using getOwnProperty_esm_Nil_old [OF that, of tst]
    by (simp add: res getOwnProperty_fold_defineProp stamped_def)
  have own_st: "hasOwnProperty stamped name =
      (hasOwnProperty exports name \<or> name = Name ''__esModule'' \<or> (tst \<and> name = ToStringTag))" for name
    unfolding stamped_def by (rule hasOwnProperty_esm_Nil)
  have def: "getOwnProperty result (Name key) =
      (if hasOwnProperty stamped (Name key) then getOwnProperty stamped (Name key)
       else Some (AccessorDesc (map_of getters key) True))" if "key \<in> set (map fst getters)" for key
    using that by (auto simp add: res getOwnProperty_fold_defineProp hasOwnProperty_iff split: option.splits)
  have own_res: "hasOwnProperty result name =
      (hasOwnProperty stamped name \<or> name \<in> Name ` set (map fst getters))" for name
    unfolding result_def stamped_def by (rule hasOwnProperty_esm)
  have inh: "inherited result = inherited exports"
    by (simp add: res stamped_def esm_Nil Let_def)
  have st_again: "esm tst result [] = result"
    by (simp add: esm_Nil Let_def defineProp_owned own_res own_st)
  have again: "esm tst result getters = result"
    unfolding esm_fold [of tst result getters] st_again
    by (rule fold_defineProp_owned) (simp add: own_res)
  show ?thesis
    unfolding Let_def stamped_def [symmetric] result_def [symmetric]
    using keep own_st def own_res inh again by blast
qed

theorem esm_defines_missing_only_witness:
  "''b'' \<in> set (map fst exampleGetters) \<and> ''a'' \<in> set (map fst exampleGetters)
   \<and> getOwnProperty userExports (Name ''a'') = Some (DataDesc (JNum 1) True)
   \<and> getOwnProperty (esm True userExports exampleGetters) (Name ''a'') = Some (DataDesc (JNum 1) True)
   \<and> getOwnProperty (esm True userExports exampleGetters) (Name ''b'') = Some (AccessorDesc (Some 11) True)
   \<and> esm True (esm True userExports exampleGetters) exampleGetters = esm True userExports exampleGetters"
proof -
  have k: "''b'' \<in> set (map fst exampleGetters)" "''a'' \<in> set (map fst exampleGetters)"
    by (simp_all add: exampleGetters_def)
  have a: "getOwnProperty userExports (Name ''a'') = Some (DataDesc (JNum 1) True)"
    by (simp add: userExports_def plainObject_def getOwnProperty_def)
  have own: "hasOwnProperty userExports (Name ''a'')" "\<not> hasOwnProperty userExports (Name ''b'')"
    by (simp_all add: userExports_def plainObject_def hasOwnProperty_def ownKeys_def)
  have g: "map_of exampleGetters ''b'' = Some 11"
    by (simp add: exampleGetters_def)
  note t = esm_defines_missing_only [of True userExports exampleGetters, unfolded Let_def]
  from t a have a': "getOwnProperty (esm True userExports exampleGetters) (Name ''a'') = Some (DataDesc (JNum 1) True)"
    by blast
  from t have hb: "\<not> hasOwnProperty (esm True userExports []) (Name ''b'')"
    using own by simp
  from t k(1) have "getOwnProperty (esm True userExports exampleGetters) (Name ''b'') =
      (if hasOwnProperty (esm True userExports []) (Name ''b'')
       then getOwnProperty (esm True userExports []) (Name ''b'')
       else Some (AccessorDesc (map_of exampleGetters ''b'') True))"
    by blast
  with hb g have b': "getOwnProperty (esm True userExports exampleGetters) (Name ''b'') = Some (AccessorDesc (Some 11) True)"
    by simp
  from t have i: "esm True (esm True userExports exampleGetters) exampleGetters = esm True userExports exampleGetters"
    by blast
  from k a a' b' i show ?thesis by blast
qed

section \<open>dynamicExport\<close>

lemma scanReexported_find:
  "scanReexported call heap objs prop =
     (case find (\<lambda>obj. reflectGet call (heap obj) prop \<noteq> JUndefined) objs of
        None \<Rightarrow> JUndefined
      | Some obj \<Rightarrow> reflectGet call (heap obj) prop)"
  by (induction objs) (simp_all add: Let_def)

lemma scanReexported_append:
  "scanReexported call heap (objs @ later) prop =
     (if scanReexported call heap objs prop \<noteq> JUndefined
      then scanReexported call heap objs prop
      else scanReexported call heap later prop)"
  by (induction objs) (simp_all add: Let_def)

lemma fold_pushKey:
  "fold pushKey ks acc =
     acc @ firstOccurrences (filter (\<lambda>k. k \<noteq> Name ''default'' \<and> k \<notin> set acc) ks)"
proof (induction ks arbitrary: acc)
  case Nil
  show ?case by simp
next
  case (Cons k ks)
  have step: "fold pushKey (k # ks) acc = fold pushKey ks (pushKey k acc)"
    by simp
  show ?case
  proof (cases "k \<noteq> Name ''default'' \<and> k \<notin> set acc")
    case True
    then have p: "pushKey k acc = acc @ [k]"
      by (simp add: pushKey_def)
    have "filter (\<lambda>k'. k' \<noteq> Name ''default'' \<and> k' \<notin> set (acc @ [k])) ks
        = filter (\<lambda>y. y \<noteq> k) (filter (\<lambda>k'. k' \<noteq> Name ''default'' \<and> k' \<notin> set acc) ks)"
      unfolding filter_filter by (rule filter_cong) auto
    then have "fold pushKey ks (acc @ [k]) =
        (acc @ [k]) @ filter (\<lambda>y. y \<noteq> k)
           (firstOccurrences (filter (\<lambda>k'. k' \<noteq> Name ''default'' \<and> k' \<notin> set acc) ks))"
      by (simp only: Cons.IH filter_firstOccurrences)
    with True show ?thesis
      unfolding step p by simp
  next
    case False
    then have p: "pushKey k acc = acc"
      by (auto simp add: pushKey_def)
    from False show ?thesis
      unfolding step p Cons.IH by auto
  qed
qed

lemma proxyOwnKeys_spec:
  "proxyOwnKeys heap target objs =
     specViewKeys (ownKeys (heap target)) (map (\<lambda>obj. ownKeys (heap obj)) objs)"
proof -
  have "fold (\<lambda>obj keys. fold pushKey (ownKeys (heap obj)) keys) objs acc
      = fold pushKey (concat (map (\<lambda>obj. ownKeys (heap obj)) objs)) acc" for acc
    by (induction objs arbitrary: acc) simp_all
  then show ?thesis
    by (simp add: proxyOwnKeys_def specViewKeys_def fold_pushKey)
qed

text \<open>
  Claim C8.  \<^verbatim>\<open>dynamicExport\<close> appends the source to the module's list, having on the
  first call created the list and the namespace view over the primary exports.  With
  \<open>sources\<close> the list after the call: the view's \<^verbatim>\<open>get\<close> returns the primary
  object's value for a name the primary object owns, for \<^verbatim>\<open>"default"\<close> and for
  \<^verbatim>\<open>"__esModule"\<close>, and otherwise the value of the first source in the list whose value
  is not \<^verbatim>\<open>undefined\<close>, or \<^verbatim>\<open>undefined\<close>; a name that resolved to a defined
  value before the call resolves to the same value after it; and the view's
  \<^verbatim>\<open>ownKeys\<close> is the primary object's own keys followed by the sources' own keys in
  list order, without \<^verbatim>\<open>"default"\<close> and without repetitions.
\<close>

theorem dynamicExport_view:
  "(let module1 = dynamicExport module exports object;
        before = (case reexportedObjects module of None \<Rightarrow> [] | Some objs \<Rightarrow> objs);
        sources = before @ [object]
    in reexportedObjects module1 = Some sources
       \<and> namespaceObject module1 =
           (if reexportedObjects module = None
            then Some (if isPromise (moduleExports module)
                       then NsDeferred (moduleExports module) exports else NsProxy exports)
            else namespaceObject module)
       \<and> proxyGet call heap target sources prop =
           (if hasOwnProperty (heap target) prop \<or> prop = Name ''default''
               \<or> prop = Name ''__esModule''
            then reflectGet call (heap target) prop
            else (case find (\<lambda>obj. reflectGet call (heap obj) prop \<noteq> JUndefined) sources of
                    None \<Rightarrow> JUndefined
                  | Some obj \<Rightarrow> reflectGet call (heap obj) prop))
       \<and> (proxyGet call heap target before prop \<noteq> JUndefined \<longrightarrow>
            proxyGet call heap target sources prop = proxyGet call heap target before prop)
       \<and> proxyOwnKeys heap target sources =
           specViewKeys (ownKeys (heap target)) (map (\<lambda>obj. ownKeys (heap obj)) sources)
       \<and> (\<forall>t. namespaceObject module1 = Some (NsProxy t) \<longrightarrow>
              viewGet call heap module1 prop = Some (proxyGet call heap t sources prop)
              \<and> viewOwnKeys heap module1 = Some (proxyOwnKeys heap t sources)))"
proof -
  define before where "before = (case reexportedObjects module of None \<Rightarrow> [] | Some objs \<Rightarrow> objs)"
  define module1 where "module1 = dynamicExport module exports object"
  have l: "reexportedObjects module1 = Some (before @ [object])"
    by (simp add: module1_def before_def dynamicExport_def split: option.splits)
  have n: "namespaceObject module1 =
           (if reexportedObjects module = None
            then Some (if isPromise (moduleExports module)
                       then NsDeferred (moduleExports module) exports else NsProxy exports)
            else namespaceObject module)"
    by (simp add: module1_def dynamicExport_def split: option.splits)
  have g: "proxyGet call heap target (before @ [object]) prop =
           (if hasOwnProperty (heap target) prop \<or> prop = Name ''default''
               \<or> prop = Name ''__esModule''
            then reflectGet call (heap target) prop
            else (case find (\<lambda>obj. reflectGet call (heap obj) prop \<noteq> JUndefined) (before @ [object]) of
                    None \<Rightarrow> JUndefined
                  | Some obj \<Rightarrow> reflectGet call (heap obj) prop))"
    unfolding proxyGet_def scanReexported_find ..
  have w: "proxyGet call heap target (before @ [object]) prop = proxyGet call heap target before prop"
    if "proxyGet call heap target before prop \<noteq> JUndefined"
    using that by (auto simp add: proxyGet_def scanReexported_append split: if_splits)
  have v: "viewGet call heap module1 prop = Some (proxyGet call heap t (before @ [object]) prop)
              \<and> viewOwnKeys heap module1 = Some (proxyOwnKeys heap t (before @ [object]))"
    if "namespaceObject module1 = Some (NsProxy t)" for t
    by (simp add: viewGet_def viewOwnKeys_def that l)
  show ?thesis
    unfolding Let_def before_def [symmetric] module1_def [symmetric]
    using l n g w v proxyOwnKeys_spec by blast
qed

theorem dynamicExport_view_witness:
  "namespaceObject (dynamicExport reexportingModule 0 3) = Some (NsProxy 0)
   \<and> reexportedObjects (dynamicExport reexportingModule 0 3) = Some [1, 2, 3]
   \<and> proxyGet noCall exampleHeap 0 [1, 2] (Name ''a'') = JNum 1
   \<and> viewGet noCall exampleHeap (dynamicExport reexportingModule 0 3) (Name ''a'') = Some (JNum 1)
   \<and> viewGet noCall exampleHeap (dynamicExport reexportingModule 0 3) (Name ''c'') = Some (JNum 4)
   \<and> viewOwnKeys exampleHeap (dynamicExport reexportingModule 0 3)
       = Some [Name ''own'', Name ''a'', Name ''b'', Name ''c'']"
proof -
  have m: "reexportedObjects reexportingModule = Some [1, 2]"
    "namespaceObject reexportingModule = Some (NsProxy 0)"
    by (simp_all add: reexportingModule_def dynamicExport_def exampleModule_def)
  have a: "proxyGet noCall exampleHeap 0 [1, 2] (Name ''a'') = JNum 1"
    by (simp add: proxyGet_def exampleHeap_def plainObject_def hasOwnProperty_def ownKeys_def
          reflectGet_def getOwnProperty_def Let_def)
  have c: "proxyGet noCall exampleHeap 0 [1, 2, 3] (Name ''c'') = JNum 4"
    by (simp add: proxyGet_def exampleHeap_def plainObject_def hasOwnProperty_def ownKeys_def
          reflectGet_def getOwnProperty_def Let_def)
  have k: "proxyOwnKeys exampleHeap 0 [1, 2, 3] = [Name ''own'', Name ''a'', Name ''b'', Name ''c'']"
    by (simp add: proxyOwnKeys_def pushKey_def exampleHeap_def plainObject_def ownKeys_def)
  note t = dynamicExport_view [of reexportingModule 0 3 noCall exampleHeap 0 "Name ''a''",
      unfolded Let_def m option.case append.simps]
  from t have ns: "namespaceObject (dynamicExport reexportingModule 0 3) = Some (NsProxy 0)"
    by simp
  from t have l: "reexportedObjects (dynamicExport reexportingModule 0 3) = Some [1, 2, 3]"
    by blast
  from t have "proxyGet noCall exampleHeap 0 [1, 2] (Name ''a'') \<noteq> JUndefined \<longrightarrow>
      proxyGet noCall exampleHeap 0 [1, 2, 3] (Name ''a'') = proxyGet noCall exampleHeap 0 [1, 2] (Name ''a'')"
    by blast
  with a have a3: "proxyGet noCall exampleHeap 0 [1, 2, 3] (Name ''a'') = JNum 1"
    by simp
  have "viewGet noCall exampleHeap (dynamicExport reexportingModule 0 3) (Name ''a'') = Some (JNum 1)"
    "viewGet noCall exampleHeap (dynamicExport reexportingModule 0 3) (Name ''c'') = Some (JNum 4)"
    "viewOwnKeys exampleHeap (dynamicExport reexportingModule 0 3)
       = Some [Name ''own'', Name ''a'', Name ''b'', Name ''c'']"
    by (simp_all only: viewGet_def viewOwnKeys_def ns l a3 c k prod.case option.case
          namespace.case)
  with ns l a show ?thesis by blast
qed

section \<open>requireContext\<close>

lemma mapGet_own:
  "map_of (entries ctxmap) ident = Some entry \<Longrightarrow> mapGet ctxmap ident = EntryValue entry"
  by (simp add: mapGet_def)

lemma mapGet_not_own:
  "ident \<notin> set (requireContextKeys ctxmap) \<Longrightarrow>
   mapGet ctxmap ident = OtherValue (inheritedValue ctxmap ident)"
proof -
  assume "ident \<notin> set (requireContextKeys ctxmap)"
  then have "map_of (entries ctxmap) ident = None"
    by (simp add: requireContextKeys_def map_of_eq_None_iff)
  then show ?thesis by (simp add: mapGet_def)
qed

text \<open>
  What the context function does in general.  A key of the map goes to
  \<^verbatim>\<open>commonJsRequireContext\<close> with its entry and resolves to the entry's id without
  touching the registry.  A name that is not a key throws the lookup error only when the
  map inherits nothing truthy under that name; when it does, a call hands the inherited
  value to \<^verbatim>\<open>commonJsRequireContext\<close> and \<^verbatim>\<open>resolve\<close> ends in a \<^verbatim>\<open>TypeError\<close>.
\<close>

lemma requireContext_cases:
  "(\<forall>entry. map_of (entries ctxmap) ident = Some entry \<longrightarrow>
      requireContextCall commonJsRequireContext sourceModule ctxmap ident registry =
        commonJsRequireContext (EntryValue entry) sourceModule registry
      \<and> requireContextResolve ctxmap ident registry = (Inr (entryId entry ()), registry))
   \<and> (ident \<notin> set (requireContextKeys ctxmap) \<and> \<not> truthy (inheritedValue ctxmap ident) \<longrightarrow>
      requireContextCall commonJsRequireContext sourceModule ctxmap ident registry =
        (Inl (Error (''module '' @ ident @
               '' is required from a require.context, but is not in the context'')), registry)
      \<and> requireContextResolve ctxmap ident registry =
        (Inl (Error (''module '' @ ident @
               '' is resolved from a require.context, but is not in the context'')), registry))
   \<and> (ident \<notin> set (requireContextKeys ctxmap) \<and> truthy (inheritedValue ctxmap ident) \<longrightarrow>
      requireContextCall commonJsRequireContext sourceModule ctxmap ident registry =
        commonJsRequireContext (OtherValue (inheritedValue ctxmap ident)) sourceModule registry
      \<and> requireContextResolve ctxmap ident registry = (Inl TypeError, registry))"
  by (simp add: requireContextCall_def requireContextResolve_def Let_def mapGet_own
        mapGet_not_own)

text \<open>
  Claim C9, on the code.  The name \<^verbatim>\<open>toString\<close> is not a key of the example map, and
  \<^verbatim>\<open>keys()\<close> lists exactly \<^verbatim>\<open>./x\<close> and \<^verbatim>\<open>./y\<close>.  Yet the call with that name
  does not throw the lookup error: it hands the function the map inherits to
  \<^verbatim>\<open>commonJsRequireContext\<close>, which here records it in the registry; and
  \<^verbatim>\<open>resolve\<close> with that name ends in a \<^verbatim>\<open>TypeError\<close>, which names no key.  For the
  name \<^verbatim>\<open>./z\<close>, which the map neither owns nor inherits, both throw the lookup error
  with the key in its message; for the key \<^verbatim>\<open>./x\<close> the call instantiates and
  \<^verbatim>\<open>resolve\<close> returns the id and leaves the registry empty.
\<close>

theorem requireContext_inherited_name:
  "requireContextKeys exampleContext = [''./x'', ''./y'']
   \<and> ''toString'' \<notin> set (requireContextKeys exampleContext)
   \<and> requireContextCall recordingRequire () exampleContext ''toString'' [] =
       (Inl TypeError, [OtherValue (JFun 1)])
   \<and> requireContextResolve exampleContext ''toString'' ([] :: mapValue list) =
       (Inl TypeError, [])
   \<and> requireContextCall recordingRequire () exampleContext ''./z'' [] =
       (Inl (Error ''module ./z is required from a require.context, but is not in the context''), [])
   \<and> requireContextResolve exampleContext ''./z'' ([] :: mapValue list) =
       (Inl (Error ''module ./z is resolved from a require.context, but is not in the context''), [])
   \<and> requireContextCall recordingRequire () exampleContext ''./x'' [] =
       (Inr ''10'', [EntryValue \<lparr>entryId = (\<lambda>_. ''10'')\<rparr>])
   \<and> requireContextResolve exampleContext ''./x'' ([] :: mapValue list) = (Inr ''10'', [])"
  by (simp add: requireContextKeys_def requireContextCall_def requireContextResolve_def
        mapGet_def exampleContext_def objectPrototype_def recordingRequire_def Let_def)

section \<open>The registration loop of handleAsyncDependencies\<close>

lemma registerOn_Nil: "registerOn m f [] s = s"
  by (simp add: registerOn_def)

lemma fnQueue_skip:
  "Some q = queue (mods s m) \<or> q \<in> set (depQueues (mods s m)) \<Longrightarrow> fnQueue m f q s = s"
  by (auto simp add: fnQueue_def)

lemma fnQueue_new:
  "Some q \<noteq> queue (mods s m) \<Longrightarrow> q \<notin> set (depQueues (mods s m)) \<Longrightarrow>
   fnQueue m f q s = registerOn m f [q] s"
  by (auto simp add: fnQueue_def registerOn_def Let_def fun_eq_iff)

lemma registerOn_fields:
  "mods (registerOn m f new s) =
     (mods s)(m := (mods s m)\<lparr>depQueues := depQueues (mods s m) @ new\<rparr>)"
  "conts (registerOn m f new s) =
     (conts s)(f := (conts s f)\<lparr>queueCount := queueCount (conts s f)
                   + int (length (filter (\<lambda>q. \<not> resolved (queues s q)) new))\<rparr>)"
  "queues (registerOn m f new s) q =
     (if q \<in> set new \<and> \<not> resolved (queues s q)
      then (queues s q)\<lparr>fns := fns (queues s q) @ [f]\<rparr> else queues s q)"
  "wraps (registerOn m f new s) = wraps s"
  "nextQueue (registerOn m f new s) = nextQueue s"
  "nextFn (registerOn m f new s) = nextFn s"
  "nextMod (registerOn m f new s) = nextMod s"
  "nextWrap (registerOn m f new s) = nextWrap s"
  "nextObj (registerOn m f new s) = nextObj s"
  "fired (registerOn m f new s) = fired s"
  "state.more (registerOn m f new s) = state.more s"
  by (simp_all add: registerOn_def)

lemma resolved_registerOn: "resolved (queues (registerOn m f new s) q) = resolved (queues s q)"
  by (simp add: registerOn_fields)

lemma registerOn_registerOn:
  assumes "q \<notin> set new"
  shows "registerOn m f new (registerOn m f [q] s) = registerOn m f (q # new) s"
proof (rule state.equality)
  show "mods (registerOn m f new (registerOn m f [q] s)) = mods (registerOn m f (q # new) s)"
    by (simp add: registerOn_fields)
  show "conts (registerOn m f new (registerOn m f [q] s)) = conts (registerOn m f (q # new) s)"
    unfolding registerOn_fields(2) [of m f new] resolved_registerOn
    by (simp add: registerOn_fields add.assoc)
  show "queues (registerOn m f new (registerOn m f [q] s)) = queues (registerOn m f (q # new) s)"
  proof
    fix q'
    show "queues (registerOn m f new (registerOn m f [q] s)) q' = queues (registerOn m f (q # new) s) q'"
      unfolding registerOn_fields(3) [of m f new] resolved_registerOn
      using assms by (auto simp add: registerOn_fields)
  qed
qed (simp_all add: registerOn_fields)

lemma fold_fnQueue:
  "fold (fnQueue m f) qs s =
     registerOn m f
       (firstOccurrences (filter (\<lambda>q. Some q \<noteq> queue (mods s m) \<and> q \<notin> set (depQueues (mods s m))) qs))
       s"
proof (induction qs arbitrary: s)
  case Nil
  show ?case by (simp add: registerOn_Nil)
next
  case (Cons q qs)
  have step: "fold (fnQueue m f) (q # qs) s = fold (fnQueue m f) qs (fnQueue m f q s)"
    by simp
  show ?case
  proof (cases "Some q \<noteq> queue (mods s m) \<and> q \<notin> set (depQueues (mods s m))")
    case True
    then have s1: "fnQueue m f q s = registerOn m f [q] s"
      by (simp add: fnQueue_new)
    have m1: "queue (mods (registerOn m f [q] s) m) = queue (mods s m)"
      "depQueues (mods (registerOn m f [q] s) m) = depQueues (mods s m) @ [q]"
      by (simp_all add: registerOn_def)
    have flt: "filter (\<lambda>q'. Some q' \<noteq> queue (mods s m) \<and> q' \<notin> set (depQueues (mods s m) @ [q])) qs
        = filter (\<lambda>y. y \<noteq> q) (filter (\<lambda>q'. Some q' \<noteq> queue (mods s m) \<and> q' \<notin> set (depQueues (mods s m))) qs)"
      unfolding filter_filter by (rule filter_cong) auto
    have "fold (fnQueue m f) (q # qs) s =
        registerOn m f (filter (\<lambda>y. y \<noteq> q) (firstOccurrences
            (filter (\<lambda>q'. Some q' \<noteq> queue (mods s m) \<and> q' \<notin> set (depQueues (mods s m))) qs)))
          (registerOn m f [q] s)"
      unfolding step s1 Cons.IH m1 flt filter_firstOccurrences ..
    also have "\<dots> = registerOn m f (q # filter (\<lambda>y. y \<noteq> q) (firstOccurrences
            (filter (\<lambda>q'. Some q' \<noteq> queue (mods s m) \<and> q' \<notin> set (depQueues (mods s m))) qs))) s"
      by (rule registerOn_registerOn) simp
    finally show ?thesis using True by simp
  next
    case False
    then have s1: "fnQueue m f q s = s"
      by (intro fnQueue_skip) auto
    from False show ?thesis
      unfolding step s1 Cons.IH by auto
  qed
qed


lemma mods_fnQueue_other: "m' \<noteq> m \<Longrightarrow> mods (fnQueue m f q s) m' = mods s m'"
  by (simp add: fnQueue_def Let_def)

lemma turbopackQueues_fnQueue:
  "turbopackQueues d (fnQueue m f) s = fold (fnQueue m f) (exposedQueues s d) s"
proof (cases d)
  case (ExtModule m')
  show ?thesis
  proof (cases "queue (mods s m')")
    case None
    then show ?thesis
      by (simp add: ExtModule turbopackQueues_def exposedQueues_def)
  next
    case (Some q)
    have "depQueues (mods (fnQueue m f q s) m') = depQueues (mods s m')"
    proof (cases "m' = m")
      case True
      with Some have "fnQueue m f q s = s" by (simp add: fnQueue_skip)
      then show ?thesis by simp
    next
      case False
      then show ?thesis by (simp add: mods_fnQueue_other)
    qed
    with Some show ?thesis
      by (simp add: ExtModule turbopackQueues_def exposedQueues_def)
  qed
next
  case (ExtWrapped w)
  then show ?thesis by (simp add: turbopackQueues_def exposedQueues_def)
next
  case (ExtPlain v)
  then show ?thesis by (simp add: turbopackQueues_def exposedQueues_def)
qed

lemma sameExposure_registerOn:
  "sameExposure m s t \<Longrightarrow> sameExposure m s (registerOn m f new t)"
  by (auto simp add: sameExposure_def registerOn_fields)

lemma filter_exposed_sameExposure:
  assumes "sameExposure m s t"
  shows "filter (\<lambda>q. Some q \<noteq> queue (mods t m) \<and> q \<notin> set (depQueues (mods t m))) (exposedQueues t d)
       = filter (\<lambda>q. Some q \<noteq> queue (mods t m) \<and> q \<notin> set (depQueues (mods t m))) (exposedQueues s d)"
proof (cases "d = ExtModule m")
  case True
  have "filter (\<lambda>q. Some q \<noteq> queue (mods t m) \<and> q \<notin> set (depQueues (mods t m))) (exposedQueues u (ExtModule m)) = []"
    if "queue (mods u m) = queue (mods t m)" "set (depQueues (mods u m)) \<subseteq> set (depQueues (mods t m))" for u
    using that by (auto simp add: exposedQueues_def filter_empty_conv split: option.splits)
  from this [of t] this [of s] assms show ?thesis
    by (simp add: True sameExposure_def)
next
  case False
  with assms have "exposedQueues t d = exposedQueues s d"
    by (cases d) (auto simp add: exposedQueues_def sameExposure_def)
  then show ?thesis by simp
qed

lemma registration_loop:
  assumes "sameExposure m s t"
  shows "fold (\<lambda>d. turbopackQueues d (fnQueue m f)) cd t
       = fold (fnQueue m f) (concat (map (exposedQueues s) cd)) t"
  using assms
proof (induction cd arbitrary: t)
  case Nil
  show ?case by simp
next
  case (Cons d cd)
  define t1 where "t1 = fold (fnQueue m f) (exposedQueues s d) t"
  have "turbopackQueues d (fnQueue m f) t = fold (fnQueue m f) (exposedQueues t d) t"
    by (rule turbopackQueues_fnQueue)
  also have "\<dots> = t1"
    unfolding t1_def fold_fnQueue filter_exposed_sameExposure [OF Cons.prems] ..
  finally have first: "turbopackQueues d (fnQueue m f) t = t1" .
  have "sameExposure m s t1"
    unfolding t1_def fold_fnQueue by (rule sameExposure_registerOn) (rule Cons.prems)
  then have "fold (\<lambda>d. turbopackQueues d (fnQueue m f)) cd t1
       = fold (fnQueue m f) (concat (map (exposedQueues s) cd)) t1"
    by (rule Cons.IH)
  then show ?case
    by (simp add: first t1_def)
qed

lemma wrapDep_fields:
  "mods (snd (wrapDep dep s)) = mods s"
  "conts (snd (wrapDep dep s)) = conts s"
  "nextFn (snd (wrapDep dep s)) = nextFn s"
  "fired (snd (wrapDep dep s)) = fired s"
  by (cases dep; simp add: wrapDep_def Let_def)+

lemma wrapDeps_fields:
  "mods (snd (wrapDeps deps s)) = mods s"
  "conts (snd (wrapDeps deps s)) = conts s"
  "nextFn (snd (wrapDeps deps s)) = nextFn s"
  "fired (snd (wrapDeps deps s)) = fired s"
  by (induction deps arbitrary: s; simp add: split_beta Let_def wrapDep_fields)+

lemma exposedQueues_cong:
  "mods t = mods s \<Longrightarrow> wraps t = wraps s \<Longrightarrow> exposedQueues t d = exposedQueues s d"
  by (cases d) (simp_all add: exposedQueues_def)

lemma handleAsyncDependencies_eq:
  "handleAsyncDependencies m deps s =
     (let cd = fst (wrapDeps deps s); s1 = snd (wrapDeps deps s); f = nextFn s;
          s3 = registerOn m f (metQueues m deps s)
                 (s1\<lparr>conts := (conts s1)(f := \<lparr>queueCount = 0, currentDeps = cd\<rparr>),
                     nextFn := Suc f\<rparr>)
      in (if queueCount (conts s3 f) \<noteq> 0 then Inr (Deferred f)
          else (case getResult s3 cd of Inl e \<Rightarrow> Inl e | Inr vs \<Rightarrow> Inr (Results vs)),
          s3))"
proof -
  define cd where "cd = fst (wrapDeps deps s)"
  define s1 where "s1 = snd (wrapDeps deps s)"
  define s2 where "s2 = s1\<lparr>conts := (conts s1)(nextFn s := \<lparr>queueCount = 0, currentDeps = cd\<rparr>),
                     nextFn := Suc (nextFn s)\<rparr>"
  have w: "wrapDeps deps s = (cd, s1)" by (simp add: cd_def s1_def)
  have n: "nextFn s1 = nextFn s" and m1: "mods s1 = mods s"
    by (simp_all add: s1_def wrapDeps_fields)
  have m2: "mods s2 = mods s" by (simp add: s2_def m1)
  have ex: "exposedQueues s2 = exposedQueues s1"
    by (rule ext, rule exposedQueues_cong) (simp_all add: s2_def)
  have "fold (\<lambda>d. turbopackQueues d (fnQueue m (nextFn s))) cd s2
      = fold (fnQueue m (nextFn s)) (concat (map (exposedQueues s2) cd)) s2"
    by (rule registration_loop) (simp add: sameExposure_def)
  also have "\<dots> = registerOn m (nextFn s)
       (firstOccurrences (filter (\<lambda>q. Some q \<noteq> queue (mods s2 m) \<and> q \<notin> set (depQueues (mods s2 m)))
          (concat (map (exposedQueues s2) cd)))) s2"
    by (rule fold_fnQueue)
  also have "\<dots> = registerOn m (nextFn s) (metQueues m deps s) s2"
    by (simp add: metQueues_def m2 ex filter_firstOccurrences cd_def s1_def)
  finally have loop: "fold (\<lambda>d. turbopackQueues d (fnQueue m (nextFn s))) cd s2
      = registerOn m (nextFn s) (metQueues m deps s) s2" .
  show ?thesis
    unfolding handleAsyncDependencies_def w
    by (simp add: Let_def n loop [unfolded s2_def] cd_def [symmetric] s1_def [symmetric]
          split: sum.splits)
qed

section \<open>handleAsyncDependencies\<close>

lemma set_metQueues:
  "set (metQueues m deps s) =
     {q. (\<exists>d \<in> set (fst (wrapDeps deps s)). q \<in> set (exposedQueues (snd (wrapDeps deps s)) d))
         \<and> Some q \<noteq> queue (mods s m) \<and> q \<notin> set (depQueues (mods s m))}"
  by (auto simp add: metQueues_def)

lemma extError_cong:
  "mods t = mods s \<Longrightarrow> wraps t = wraps s \<Longrightarrow> extError t d = extError s d"
  by (cases d) (simp_all add: extError_def)

lemma extExports_cong:
  "mods t = mods s \<Longrightarrow> wraps t = wraps s \<Longrightarrow> extExports t d = extExports s d"
  by (cases d) (simp_all add: extExports_def)

lemma extError_registerOn: "extError (registerOn m f new s) d = extError s d"
  by (cases d) (simp_all add: extError_def registerOn_fields)

lemma extExports_registerOn: "extExports (registerOn m f new s) d = extExports s d"
  by (cases d) (simp_all add: extExports_def registerOn_fields)

lemma getResult_find:
  "getResult t cd =
     (case find (\<lambda>d. truthy (extError t d)) cd of
        None \<Rightarrow> Inr (map (extExports t) cd)
      | Some d \<Rightarrow> Inl (extError t d))"
  by (induction cd) (simp_all split: option.splits)

text \<open>
  Claim C3, as amended.  \<open>s1\<close> is the store after \<^verbatim>\<open>wrapDeps\<close>, \<open>f\<close> the
  new continuation.  The continuation is pushed, once, on exactly the queues that some
  normalized dependency exposes and that are not the module's own queue, not in the
  module's \<^verbatim>\<open>depQueues\<close> as the call found it, and not resolved; no other queue
  changes.  Its count after the call is the number of these queues.  The queues met that
  are neither the module's own nor already in \<^verbatim>\<open>depQueues\<close> are appended to
  \<^verbatim>\<open>depQueues\<close>, resolved or not, each once, which is what keeps a queue from being
  registered twice; this set belongs to the module, so it also holds the queues met by
  earlier calls of the same module.
\<close>

theorem handleAsyncDependencies_registration:
  assumes "handleAsyncDependencies m deps s = (r, s')"
  shows "(let cd = fst (wrapDeps deps s); s1 = snd (wrapDeps deps s); f = nextFn s;
              new = filter (\<lambda>q. Some q \<noteq> queue (mods s m) \<and> q \<notin> set (depQueues (mods s m)))
                      (firstOccurrences (concat (map (exposedQueues s1) cd)));
              registered = filter (\<lambda>q. \<not> resolved (queues s1 q)) new
          in (\<forall>q. q \<in> set registered \<longleftrightarrow>
                  (\<exists>d \<in> set cd. q \<in> set (exposedQueues s1 d))
                  \<and> Some q \<noteq> queue (mods s m) \<and> q \<notin> set (depQueues (mods s m))
                  \<and> \<not> resolved (queues s1 q))
             \<and> distinct registered
             \<and> (\<forall>q. queues s' q =
                   (if q \<in> set registered then (queues s1 q)\<lparr>fns := fns (queues s1 q) @ [f]\<rparr>
                    else queues s1 q))
             \<and> queueCount (conts s' f) = int (length registered)
             \<and> depQueues (mods s' m) = depQueues (mods s m) @ new
             \<and> queue (mods s' m) = queue (mods s m))"
proof -
  define cd where "cd = fst (wrapDeps deps s)"
  define s1 where "s1 = snd (wrapDeps deps s)"
  define f where "f = nextFn s"
  define new where "new = filter (\<lambda>q. Some q \<noteq> queue (mods s m) \<and> q \<notin> set (depQueues (mods s m)))
                      (firstOccurrences (concat (map (exposedQueues s1) cd)))"
  define registered where "registered = filter (\<lambda>q. \<not> resolved (queues s1 q)) new"
  define s2 where "s2 = s1\<lparr>conts := (conts s1)(f := \<lparr>queueCount = 0, currentDeps = cd\<rparr>),
                     nextFn := Suc f\<rparr>"
  have mq: "metQueues m deps s = new"
    by (simp add: metQueues_def new_def cd_def s1_def)
  have s': "s' = registerOn m f new s2"
    using assms
    unfolding handleAsyncDependencies_eq Let_def mq cd_def [symmetric] s1_def [symmetric]
      f_def [symmetric] s2_def [symmetric]
    by simp
  have m1: "mods s1 = mods s"
    by (simp add: s1_def wrapDeps_fields)
  have q2: "queues s2 = queues s1" and m2: "mods s2 = mods s" and c2: "queueCount (conts s2 f) = 0"
    by (simp_all add: s2_def m1)
  have a: "q \<in> set registered \<longleftrightarrow>
                  (\<exists>d \<in> set cd. q \<in> set (exposedQueues s1 d))
                  \<and> Some q \<noteq> queue (mods s m) \<and> q \<notin> set (depQueues (mods s m))
                  \<and> \<not> resolved (queues s1 q)" for q
    by (auto simp add: registered_def new_def)
  have b: "distinct registered"
    by (simp add: registered_def new_def)
  have c: "queues s' q =
                   (if q \<in> set registered then (queues s1 q)\<lparr>fns := fns (queues s1 q) @ [f]\<rparr>
                    else queues s1 q)" for q
    by (simp add: s' registerOn_fields q2 registered_def)
  have d: "queueCount (conts s' f) = int (length registered)"
    by (simp add: s' registerOn_fields q2 c2 registered_def)
  have e: "depQueues (mods s' m) = depQueues (mods s m) @ new" "queue (mods s' m) = queue (mods s m)"
    by (simp_all add: s' registerOn_fields m2)
  show ?thesis
    unfolding Let_def cd_def [symmetric] s1_def [symmetric] f_def [symmetric]
      new_def [symmetric] registered_def [symmetric]
    using a b c d e by blast
qed

text \<open>
  Claim C4, as amended.  \<^verbatim>\<open>handleAsyncDependencies\<close> returns the deferred marker
  exactly when the count of its continuation is not zero after the registrations.
  Otherwise it returns what \<^verbatim>\<open>getResult\<close> gives at once: the throw of a captured
  error, or the results array, which is the list of the exports snapshots when no
  dependency carries a truthy captured error.  When every queue that the normalized
  dependencies expose is resolved, the count is zero.  The call does not change the
  snapshots.
\<close>

theorem handleAsyncDependencies_sync_or_deferred:
  assumes "handleAsyncDependencies m deps s = (r, s')"
  shows "(let cd = fst (wrapDeps deps s); s1 = snd (wrapDeps deps s); f = nextFn s
          in ((\<exists>g. r = Inr (Deferred g)) \<longleftrightarrow> queueCount (conts s' f) \<noteq> 0)
             \<and> (queueCount (conts s' f) \<noteq> 0 \<longrightarrow> r = Inr (Deferred f))
             \<and> (queueCount (conts s' f) = 0 \<longrightarrow>
                  r = (case getResult s' cd of Inl e \<Rightarrow> Inl e | Inr vs \<Rightarrow> Inr (Results vs)))
             \<and> ((\<forall>d \<in> set cd. \<forall>q \<in> set (exposedQueues s1 d). resolved (queues s1 q)) \<longrightarrow>
                  queueCount (conts s' f) = 0)
             \<and> ((\<forall>d \<in> set cd. \<not> truthy (extError s' d)) \<longrightarrow>
                  getResult s' cd = Inr (map (extExports s') cd))
             \<and> (\<forall>d \<in> set cd. extError s' d = extError s1 d \<and> extExports s' d = extExports s1 d))"
proof -
  define cd where "cd = fst (wrapDeps deps s)"
  define s1 where "s1 = snd (wrapDeps deps s)"
  define f where "f = nextFn s"
  define s2 where "s2 = s1\<lparr>conts := (conts s1)(f := \<lparr>queueCount = 0, currentDeps = cd\<rparr>),
                     nextFn := Suc f\<rparr>"
  define new where "new = metQueues m deps s"
  from assms have s': "s' = registerOn m f new s2"
    and r: "r = (if queueCount (conts s' f) \<noteq> 0 then Inr (Deferred f)
          else (case getResult s' cd of Inl e \<Rightarrow> Inl e | Inr vs \<Rightarrow> Inr (Results vs)))"
    unfolding handleAsyncDependencies_eq Let_def cd_def [symmetric] s1_def [symmetric]
      f_def [symmetric] s2_def [symmetric] new_def [symmetric]
    by auto
  have q2: "queues s2 = queues s1" and c2: "queueCount (conts s2 f) = 0"
    and mw: "mods s2 = mods s1" "wraps s2 = wraps s1"
    by (simp_all add: s2_def)
  have cnt: "queueCount (conts s' f) = int (length (filter (\<lambda>q. \<not> resolved (queues s1 q)) new))"
    by (simp add: s' registerOn_fields q2 c2)
  have a: "(\<exists>g. r = Inr (Deferred g)) \<longleftrightarrow> queueCount (conts s' f) \<noteq> 0"
    by (auto simp add: r split: sum.splits)
  have d: "queueCount (conts s' f) = 0"
    if "\<forall>d \<in> set cd. \<forall>q \<in> set (exposedQueues s1 d). resolved (queues s1 q)"
  proof -
    have "filter (\<lambda>q. \<not> resolved (queues s1 q)) new = []"
      using that by (auto simp add: filter_empty_conv new_def set_metQueues cd_def s1_def)
    then show ?thesis by (simp add: cnt)
  qed
  have e: "getResult s' cd = Inr (map (extExports s') cd)"
    if "\<forall>d \<in> set cd. \<not> truthy (extError s' d)"
  proof -
    from that have "find (\<lambda>d. truthy (extError s' d)) cd = None"
      by (simp add: find_None_iff)
    then show ?thesis by (simp add: getResult_find)
  qed
  have g: "extError s' d = extError s1 d \<and> extExports s' d = extExports s1 d" for d
    by (simp add: s' extError_registerOn extExports_registerOn
          extError_cong [OF mw] extExports_cong [OF mw])
  show ?thesis
    unfolding Let_def cd_def [symmetric] s1_def [symmetric] f_def [symmetric]
    using a r d e g by auto
qed

section \<open>Reading the results\<close>

lemma mods_asyncResult:
  "mods (asyncResult d err t) =
     (mods t)(d := (if truthy err
        then (mods t d)\<lparr>promise := rejectPromise err (promise (mods t d)), turbopackError := Some err\<rparr>
        else (mods t d)\<lparr>promise := resolvePromise (turbopackExports (mods t d)) (promise (mods t d))\<rparr>))"
  by (simp add: asyncResult_def Let_def)

lemma wraps_asyncResult: "wraps (asyncResult d err t) = wraps t"
  by (simp add: asyncResult_def Let_def)

lemma extError_asyncResult:
  "truthy err \<Longrightarrow>
   extError (asyncResult d err t) x = (if x = ExtModule d then err else extError t x)"
  by (cases x) (simp_all add: extError_def mods_asyncResult wraps_asyncResult)

lemma extError_wrappedOnRejected:
  "extError (wrappedOnRejected w err t) x = (if x = ExtWrapped w then err else extError t x)"
  by (cases x) (simp_all add: extError_def wrappedOnRejected_def)

lemma getResult_only_failure:
  "truthy (extError u y) \<Longrightarrow> y \<in> set cd \<Longrightarrow>
   (\<forall>x \<in> set cd. x \<noteq> y \<longrightarrow> \<not> truthy (extError u x)) \<Longrightarrow>
   getResult u cd = Inl (extError u y)"
  by (induction cd) auto

lemma getResult_throws_iff:
  "(\<exists>e. getResult t cd = Inl e) \<longleftrightarrow> (\<exists>d \<in> set cd. truthy (extError t d))"
  by (induction cd) (auto split: sum.splits)

text \<open>
  Claim C6, as amended.  After a call of \<^verbatim>\<open>handleAsyncDependencies\<close> the continuation
  holds the normalized dependencies.  When a registration was made (the count is not
  zero) the call returns the deferred marker, whatever errors the dependencies carry.  The
  call itself throws exactly when no registration was made and a dependency carries a
  truthy captured error: it then reads the results before returning.  Reading the results
  in any later store throws the captured error of the first dependency whose error is
  truthy, and returns the exports snapshots when there is none.  In particular, once a
  module dependency has completed with a truthy error through \<^verbatim>\<open>asyncResult\<close>, or a
  wrapped promise has been rejected with one, and no other dependency carries an error,
  reading throws that error.
\<close>

theorem handleAsyncDependencies_errors_on_read:
  assumes "handleAsyncDependencies m deps s = (r, s')"
  shows "(let cd = fst (wrapDeps deps s); f = nextFn s
          in currentDeps (conts s' f) = cd
             \<and> (queueCount (conts s' f) \<noteq> 0 \<longrightarrow> r = Inr (Deferred f))
             \<and> ((\<exists>e. r = Inl e) \<longleftrightarrow>
                  queueCount (conts s' f) = 0 \<and> (\<exists>d \<in> set cd. truthy (extError s' d)))
             \<and> (\<forall>t. getResult t cd =
                   (case find (\<lambda>d. truthy (extError t d)) cd of
                      None \<Rightarrow> Inr (map (extExports t) cd)
                    | Some d \<Rightarrow> Inl (extError t d)))
             \<and> (\<forall>t d err. truthy err \<and> ExtModule d \<in> set cd
                    \<and> (\<forall>x \<in> set cd. x \<noteq> ExtModule d \<longrightarrow> \<not> truthy (extError t x)) \<longrightarrow>
                  getResult (asyncResult d err t) cd = Inl err)
             \<and> (\<forall>t w err. truthy err \<and> ExtWrapped w \<in> set cd
                    \<and> (\<forall>x \<in> set cd. x \<noteq> ExtWrapped w \<longrightarrow> \<not> truthy (extError t x)) \<longrightarrow>
                  getResult (wrappedOnRejected w err t) cd = Inl err))"
proof -
  define cd where "cd = fst (wrapDeps deps s)"
  define s1 where "s1 = snd (wrapDeps deps s)"
  define f where "f = nextFn s"
  define s2 where "s2 = s1\<lparr>conts := (conts s1)(f := \<lparr>queueCount = 0, currentDeps = cd\<rparr>),
                     nextFn := Suc f\<rparr>"
  define new where "new = metQueues m deps s"
  from assms have s': "s' = registerOn m f new s2"
    and r: "r = (if queueCount (conts s' f) \<noteq> 0 then Inr (Deferred f)
          else (case getResult s' cd of Inl e \<Rightarrow> Inl e | Inr vs \<Rightarrow> Inr (Results vs)))"
    unfolding handleAsyncDependencies_eq Let_def cd_def [symmetric] s1_def [symmetric]
      f_def [symmetric] s2_def [symmetric] new_def [symmetric]
    by auto
  have a: "currentDeps (conts s' f) = cd"
    by (simp add: s' registerOn_fields s2_def)
  have thrown: "(\<exists>e. getResult s' cd = Inl e) \<longleftrightarrow> (\<exists>d \<in> set cd. truthy (extError s' d))"
    by (rule getResult_throws_iff)
  have c: "(\<exists>e. r = Inl e) \<longleftrightarrow>
      queueCount (conts s' f) = 0 \<and> (\<exists>d \<in> set cd. truthy (extError s' d))"
    unfolding thrown [symmetric] by (auto simp add: r split: sum.splits)
  have d: "getResult (asyncResult d err t) cd = Inl err"
    if "truthy err" "ExtModule d \<in> set cd"
      "\<forall>x \<in> set cd. x \<noteq> ExtModule d \<longrightarrow> \<not> truthy (extError t x)" for t d err
    using getResult_only_failure [of "asyncResult d err t" "ExtModule d" cd] that
    by (simp add: extError_asyncResult)
  have e: "getResult (wrappedOnRejected w err t) cd = Inl err"
    if "truthy err" "ExtWrapped w \<in> set cd"
      "\<forall>x \<in> set cd. x \<noteq> ExtWrapped w \<longrightarrow> \<not> truthy (extError t x)" for t w err
    using getResult_only_failure [of "wrappedOnRejected w err t" "ExtWrapped w" cd] that
    by (simp add: extError_wrappedOnRejected)
  show ?thesis
    unfolding Let_def cd_def [symmetric] f_def [symmetric]
    using a r c d e getResult_find by (auto simp del: getResult.simps)
qed

section \<open>Runs on the example stores\<close>

lemma pending_call:
  "handleAsyncDependencies 1 [JAsyncPromise 0] pendingStore = (Inr (Deferred 0), awaitingStore)"
  by (simp add: handleAsyncDependencies_def wrapDep_def turbopackQueues_def fnQueue_def
        Let_def pendingStore_def awaitingStore_def emptyStore_def fun_eq_iff)


lemmas store_defs =
  pendingStore_def awaitingStore_def emptyStore_def failedStore_def settledStore_def

lemmas run_defs =
  handleAsyncDependencies_def wrapDep_def turbopackQueues_def fnQueue_def Let_def
  asyncResult_def resolveQueue_def markResolved_def extError_def extExports_def

theorem handleAsyncDependencies_registration_witness:
  "handleAsyncDependencies 1 [JAsyncPromise 0] pendingStore = (Inr (Deferred 0), awaitingStore)
   \<and> queues awaitingStore 0 = \<lparr>resolved = False, fns = [0]\<rparr>
   \<and> queues awaitingStore 1 = queues pendingStore 1
   \<and> queueCount (conts awaitingStore 0) = 1
   \<and> depQueues (mods awaitingStore 1) = [0]"
proof -
  have w: "wrapDeps [JAsyncPromise 0] pendingStore = ([ExtModule 0], pendingStore)"
    by (simp add: wrapDep_def)
  have p: "exposedQueues pendingStore (ExtModule 0) = [0]" "nextFn pendingStore = 0"
    "queue (mods pendingStore 1) = Some 1" "depQueues (mods pendingStore 1) = []"
    "queues pendingStore 0 = \<lparr>resolved = False, fns = []\<rparr>"
    by (simp_all add: exposedQueues_def store_defs)
  have new: "filter (\<lambda>q. Some q \<noteq> queue (mods pendingStore 1) \<and> q \<notin> set (depQueues (mods pendingStore 1)))
      (firstOccurrences (concat (map (exposedQueues pendingStore) [ExtModule 0]))) = [0]"
    by (simp add: exposedQueues_def store_defs)
  have reg: "filter (\<lambda>q. \<not> resolved (queues pendingStore q)) [0] = [0]"
    by (simp add: store_defs)
  note t = handleAsyncDependencies_registration [OF pending_call,
      unfolded Let_def w fst_conv snd_conv new reg p(2)]
  from t have q: "queues awaitingStore q =
      (if q \<in> set [0] then (queues pendingStore q)\<lparr>fns := fns (queues pendingStore q) @ [0]\<rparr>
       else queues pendingStore q)" for q
    by blast
  from t have c: "queueCount (conts awaitingStore 0) = int (length [0::nat])"
    and d: "depQueues (mods awaitingStore 1) = depQueues (mods pendingStore 1) @ [0]"
    by blast+
  have "queues awaitingStore 0 = \<lparr>resolved = False, fns = [0]\<rparr>
     \<and> queues awaitingStore 1 = queues pendingStore 1
     \<and> queueCount (conts awaitingStore 0) = 1
     \<and> depQueues (mods awaitingStore 1) = [0]"
    by (simp add: q c d) (simp add: store_defs)
  with pending_call show ?thesis by blast
qed

text \<open>
  Claim C3 as stated fails: the set that removes duplicates outlives the call.  A second
  call of the same module on a dependency that is still pending, and on whose queue the
  first call registered, registers nothing and returns the results at once.
\<close>

theorem second_call_skips_pending_queue:
  "handleAsyncDependencies 1 [JAsyncPromise 0] pendingStore = (Inr (Deferred 0), awaitingStore)
   \<and> queue (mods awaitingStore 0) = Some 0 \<and> \<not> resolved (queues awaitingStore 0)
   \<and> queue (mods awaitingStore 1) = Some 1
   \<and> fst (handleAsyncDependencies 1 [JAsyncPromise 0] awaitingStore) = Inr (Results [JObj 0])
   \<and> fns (queues (snd (handleAsyncDependencies 1 [JAsyncPromise 0] awaitingStore)) 0) = [0]
   \<and> queueCount (conts (snd (handleAsyncDependencies 1 [JAsyncPromise 0] awaitingStore)) 1) = 0"
proof -
  have "queue (mods awaitingStore 0) = Some 0 \<and> \<not> resolved (queues awaitingStore 0)
   \<and> queue (mods awaitingStore 1) = Some 1
   \<and> fst (handleAsyncDependencies 1 [JAsyncPromise 0] awaitingStore) = Inr (Results [JObj 0])
   \<and> fns (queues (snd (handleAsyncDependencies 1 [JAsyncPromise 0] awaitingStore)) 0) = [0]
   \<and> queueCount (conts (snd (handleAsyncDependencies 1 [JAsyncPromise 0] awaitingStore)) 1) = 0"
    by (simp add: run_defs store_defs)
  with pending_call show ?thesis by blast
qed

lemma failedStore_eq:
  "failedStore =
     pendingStore
       \<lparr>mods := (mods pendingStore)
           (0 := \<lparr>queue = Some 0, depQueues = [], turbopackExports = JObj 0,
                  promise = Rejected (JStr ''boom''), turbopackError = Some (JStr ''boom'')\<rparr>),
        queues := (queues pendingStore)(0 := \<lparr>resolved = True, fns = []\<rparr>)\<rparr>"
  by (simp add: run_defs store_defs fun_eq_iff)

lemma settledStore_eq:
  "settledStore =
     pendingStore
       \<lparr>mods := (mods pendingStore)
           (0 := \<lparr>queue = Some 0, depQueues = [], turbopackExports = JObj 0,
                  promise = Resolved (JObj 0), turbopackError = None\<rparr>),
        queues := (queues pendingStore)(0 := \<lparr>resolved = True, fns = []\<rparr>)\<rparr>"
  by (simp add: run_defs store_defs fun_eq_iff)

theorem handleAsyncDependencies_sync_or_deferred_witness:
  "fst (handleAsyncDependencies 1 [JAsyncPromise 0, JNum 5] settledStore)
     = Inr (Results [JObj 0, JNum 5])
   \<and> queueCount (conts (snd (handleAsyncDependencies 1 [JAsyncPromise 0, JNum 5] settledStore)) 0) = 0
   \<and> resolved (queues settledStore 0)
   \<and> fst (handleAsyncDependencies 1 [JAsyncPromise 0] pendingStore) = Inr (Deferred 0)
   \<and> queueCount (conts (snd (handleAsyncDependencies 1 [JAsyncPromise 0] pendingStore)) 0) = 1"
proof -
  define r where "r = fst (handleAsyncDependencies 1 [JAsyncPromise 0, JNum 5] settledStore)"
  define s' where "s' = snd (handleAsyncDependencies 1 [JAsyncPromise 0, JNum 5] settledStore)"
  have h: "handleAsyncDependencies 1 [JAsyncPromise 0, JNum 5] settledStore = (r, s')"
    by (simp add: r_def s'_def)
  have w: "wrapDeps [JAsyncPromise 0, JNum 5] settledStore = ([ExtModule 0, ExtPlain (JNum 5)], settledStore)"
    by (simp add: wrapDep_def)
  have p: "exposedQueues settledStore (ExtModule 0) = [0]" "exposedQueues settledStore (ExtPlain (JNum 5)) = []"
    "resolved (queues settledStore 0)" "nextFn settledStore = 0"
    "extError settledStore (ExtModule 0) = JUndefined" "extExports settledStore (ExtModule 0) = JObj 0"
    by (simp_all add: settledStore_eq exposedQueues_def extError_def extExports_def store_defs)
  note t = handleAsyncDependencies_sync_or_deferred [OF h, unfolded Let_def w fst_conv snd_conv]
  from t p have c: "queueCount (conts s' 0) = 0"
    by simp
  from t p have e: "extError s' (ExtModule 0) = JUndefined" "extExports s' (ExtModule 0) = JObj 0"
    "extError s' (ExtPlain (JNum 5)) = JUndefined" "extExports s' (ExtPlain (JNum 5)) = JNum 5"
    by (simp_all add: extError_def extExports_def)
  from t c p have "r = (case getResult s' [ExtModule 0, ExtPlain (JNum 5)] of
      Inl e \<Rightarrow> Inl e | Inr vs \<Rightarrow> Inr (Results vs))"
    by simp
  then have r: "r = Inr (Results [JObj 0, JNum 5])"
    by (simp add: e)
  have d: "fst (handleAsyncDependencies 1 [JAsyncPromise 0] pendingStore) = Inr (Deferred 0)
     \<and> queueCount (conts (snd (handleAsyncDependencies 1 [JAsyncPromise 0] pendingStore)) 0) = 1"
    unfolding pending_call fst_conv snd_conv
    by (simp add: awaitingStore_def emptyStore_def)
  from r c d p(3) show ?thesis
    unfolding r_def s'_def by blast
qed

text \<open>
  Claim C4 as stated fails: with a plain value and a module that has completed with an
  error, every queue met is resolved, and the call throws instead of returning the results
  array.
\<close>

theorem settled_failure_throws_at_call:
  "exposedQueues failedStore (ExtModule 0) = [0] \<and> resolved (queues failedStore 0)
   \<and> wrapDeps [JNum 7, JAsyncPromise 0] failedStore = ([ExtPlain (JNum 7), ExtModule 0], failedStore)
   \<and> fst (handleAsyncDependencies 1 [JNum 7, JAsyncPromise 0] failedStore) = Inl (JStr ''boom'')"
  by (simp add: failedStore_eq exposedQueues_def run_defs store_defs)

theorem handleAsyncDependencies_errors_on_read_witness:
  "handleAsyncDependencies 1 [JAsyncPromise 0] pendingStore = (Inr (Deferred 0), awaitingStore)
   \<and> truthy (JStr ''boom'')
   \<and> currentDeps (conts awaitingStore 0) = [ExtModule 0]
   \<and> fired (asyncResult 0 (JStr ''boom'') awaitingStore) = [0]
   \<and> getResult (asyncResult 0 (JStr ''boom'') awaitingStore) [ExtModule 0] = Inl (JStr ''boom'')"
proof -
  have w: "wrapDeps [JAsyncPromise 0] pendingStore = ([ExtModule 0], pendingStore)"
    by (simp add: wrapDep_def)
  have n: "nextFn pendingStore = 0" by (simp add: store_defs)
  note t = handleAsyncDependencies_errors_on_read [OF pending_call, unfolded Let_def w fst_conv n]
  from t have c: "currentDeps (conts awaitingStore 0) = [ExtModule 0]"
    by blast
  from t have "truthy (JStr ''boom'') \<and> ExtModule 0 \<in> set [ExtModule 0]
      \<and> (\<forall>x \<in> set [ExtModule 0]. x \<noteq> ExtModule 0 \<longrightarrow> \<not> truthy (extError awaitingStore x)) \<longrightarrow>
      getResult (asyncResult 0 (JStr ''boom'') awaitingStore) [ExtModule 0] = Inl (JStr ''boom'')"
    by blast
  then have g: "getResult (asyncResult 0 (JStr ''boom'') awaitingStore) [ExtModule 0] = Inl (JStr ''boom'')"
    by simp
  have f: "fired (asyncResult 0 (JStr ''boom'') awaitingStore) = [0]"
    by (simp add: run_defs store_defs decrementCount_def fireIfZero_def callFn_def)
  from pending_call c g f show ?thesis by simp
qed

text \<open>
  Claim C6 as stated fails: a module that completed with an error before the consumer's
  call makes \<^verbatim>\<open>handleAsyncDependencies\<close> itself throw that error, so a consumer that
  never reads the results fails all the same.
\<close>

theorem settled_failure_fails_idle_consumer:
  "failedStore = asyncResult 0 (JStr ''boom'') pendingStore
   \<and> turbopackError (mods failedStore 0) = Some (JStr ''boom'')
   \<and> fst (handleAsyncDependencies 1 [JAsyncPromise 0] failedStore) = Inl (JStr ''boom'')"
proof -
  have "turbopackError (mods failedStore 0) = Some (JStr ''boom'')
      \<and> fst (handleAsyncDependencies 1 [JAsyncPromise 0] failedStore) = Inl (JStr ''boom'')"
    by (simp add: failedStore_eq run_defs pendingStore_def emptyStore_def)
  with failedStore_def show ?thesis by blast
qed

end
